theory Spec2Isabelle
  imports Complex_Main
begin

section \<open>Data model of \<open>useSubscriptions\<close>\<close>

text \<open>
  The composable keeps an array of subscription objects. JavaScript objects are
  references: \<open>find\<close> returns the object itself, closures of timers capture it, and
  \<open>updateSubscription\<close> stores the caller's object in the array. The model therefore
  has a store of objects (\<open>heap\<close>, from addresses to records) and the array
  \<open>subscriptions\<close> is a list of addresses.

  Numbers are modelled as \<open>int\<close> (node counts, byte counts and minutes are integers
  far below \<open>2^53\<close>). A field that may be \<open>undefined\<close> or \<open>null\<close> is an option.
  A record may lack its \<open>url\<close>: \<open>initializeSubscriptions\<close> gives it no
  default and bulk import guards against its absence, so \<open>url\<close> is an option and
  \<open>url.startsWith\<close> on a record without one throws. The \<open>name\<close> is a string,
  the empty string standing for a missing name.
\<close>

type_synonym addr = nat
type_synonym handle = nat

record user_info =
  upload :: "int option"
  download :: "int option"
  total :: "int option"

record sub =
  sub_id :: string
  name :: string
  url :: "string option"
  enabled :: bool
  nodeCount :: "int option"
  isUpdating :: bool
  userInfo :: "user_info option"
  exclude :: string
  updateInterval :: "int option"
  updateTimers :: "handle list option"

text \<open>A seed record as the host supplies it to \<open>initializeSubscriptions\<close>.\<close>

record raw_sub =
  r_id :: "string option"
  r_name :: string
  r_url :: "string option"
  r_enabled :: "bool option"
  r_nodeCount :: "int option"
  r_userInfo :: "user_info option"
  r_exclude :: "string option"
  r_updateInterval :: "int option"
  r_updateTimers :: "handle list option"

datatype level = Success | Error | Info

text \<open>The notifications of the source, by the place that emits them.\<close>

datatype toast =
    AutoUpdateDone nat nat
  | IndividualUpdateDone string
  | UpdateSucceeded string
  | UpdateFailed string
  | BulkUpdating nat
  | BulkUpdateDone nat nat
  | BulkUpdateFailed
  | BulkDegrading
  | BulkThrewDegrading
  | BulkImportDone

text \<open>What the composable does to its collaborators, in order.\<close>

datatype event =
    ShowToast toast level
  | MarkDirty
  | FetchNodeCount string
  | BatchUpdateNodes "string list"
  | ConsoleError

datatype timer_action = AutoUpdate | IndividualUpdate addr

record timer =
  period :: int
  action :: timer_action

record state =
  heap :: "addr \<Rightarrow> sub"
  nextAddr :: addr
  subscriptions :: "addr list"
  subsCurrentPage :: int
  updateInterval_ref :: int
  updateTimer :: "handle option"
  timers :: "handle \<Rightarrow> timer option"
  nextHandle :: handle
  trace :: "event list"

text \<open>What the remote collaborators answer.\<close>

record fetch_data =
  count :: "int option"
  f_userInfo :: "user_info option"

datatype fetch_outcome = Resolved "fetch_data option" | Rejected

record update_result =
  res_id :: string
  res_success :: bool
  res_nodeCount :: "int option"

record batch_result =
  success :: bool
  results :: "update_result list"

datatype batch_outcome = BatchReturned batch_result | BatchThrew

text \<open>How a block of code ends: normally, or by an exception that propagates.\<close>

datatype completion = Normal | Abrupt

text \<open>
  How an \<open>async\<close> function stands when control first returns to its caller: it has
  returned, it has thrown (its promise is rejected), or it awaits a collaborator, with
  what its continuation needs.
\<close>

datatype 'a begun = Returned | Threw | Awaiting 'a

section \<open>Basic operations\<close>

definition emit :: "event \<Rightarrow> state \<Rightarrow> state" where
  "emit e s = s\<lparr>trace := trace s @ [e]\<rparr>"

definition showToast :: "toast \<Rightarrow> level \<Rightarrow> state \<Rightarrow> state" where
  "showToast t l s = emit (ShowToast t l) s"

definition markDirty :: "state \<Rightarrow> state" where
  "markDirty s = emit MarkDirty s"

text \<open>\<open>url.startsWith('http')\<close>, for a url that is a string.\<close>

definition is_http :: "string \<Rightarrow> bool" where
  "is_http u = (take 4 u = ''http'')"

text \<open>The record has a url and it starts with \<open>http\<close>.\<close>

definition has_http :: "sub \<Rightarrow> bool" where
  "has_http r = (case url r of None \<Rightarrow> False | Some u \<Rightarrow> is_http u)"

text \<open>
  \<open>s.enabled && s.url.startsWith('http')\<close> throws a \<open>TypeError\<close> exactly on an
  enabled record without url: \<open>&&\<close> does not look at the url of a disabled one.
\<close>

definition url_throws :: "sub \<Rightarrow> bool" where
  "url_throws r = (enabled r \<and> url r = None)"

text \<open>\<open>subscriptions.value.find(s => s.id === subId)\<close>\<close>

definition find_sub :: "state \<Rightarrow> string \<Rightarrow> addr option" where
  "find_sub s i = List.find (\<lambda>a. sub_id (heap s a) = i) (subscriptions s)"

text \<open>\<open>Array.prototype.slice(start, end)\<close>, negative indices counting from the end.\<close>

definition js_slice :: "'a list \<Rightarrow> int \<Rightarrow> int \<Rightarrow> 'a list" where
  "js_slice xs start fin =
     (let n = int (length xs);
          k = (if start < 0 then max (n + start) 0 else min start n);
          e = (if fin < 0 then max (n + fin) 0 else min fin n)
      in take (nat (e - k)) (drop (nat k) xs))"

section \<open>Derived views\<close>

definition subsItemsPerPage :: int where
  "subsItemsPerPage = 6"

definition enabledSubscriptions :: "state \<Rightarrow> addr list" where
  "enabledSubscriptions s = filter (\<lambda>a. enabled (heap s a)) (subscriptions s)"

text \<open>The callback of \<open>reduce\<close> in \<open>totalRemainingTraffic\<close>.\<close>

definition trafficStep :: "int \<Rightarrow> sub \<Rightarrow> int" where
  "trafficStep acc r =
     (case userInfo r of
        None \<Rightarrow> acc
      | Some ui \<Rightarrow>
          (case total ui of
             None \<Rightarrow> acc
           | Some t \<Rightarrow>
               if enabled r \<and> t > 0 then
                 (let used = (case upload ui of None \<Rightarrow> 0 | Some u \<Rightarrow> u)
                           + (case download ui of None \<Rightarrow> 0 | Some d \<Rightarrow> d);
                      remaining = t - used
                  in acc + max 0 remaining)
               else acc))"

definition totalRemainingTraffic :: "state \<Rightarrow> int" where
  "totalRemainingTraffic s = foldl trafficStep 0 (map (heap s) (subscriptions s))"

text \<open>
  \<open>Math.ceil(length / 6)\<close>, computed on integers; \<open>subsTotalPages_ceiling\<close> below
  shows that it is the ceiling of the quotient.
\<close>

definition subsTotalPages :: "state \<Rightarrow> int" where
  "subsTotalPages s = (int (length (subscriptions s)) + subsItemsPerPage - 1) div subsItemsPerPage"

definition paginatedSubscriptions :: "state \<Rightarrow> addr list" where
  "paginatedSubscriptions s =
     (let start = (subsCurrentPage s - 1) * subsItemsPerPage;
          fin = start + subsItemsPerPage
      in js_slice (subscriptions s) start fin)"

definition changeSubsPage :: "int \<Rightarrow> state \<Rightarrow> state" where
  "changeSubsPage page s =
     (if page < 1 \<or> page > subsTotalPages s then s else s\<lparr>subsCurrentPage := page\<rparr>)"

text \<open>The records that count for the remaining quota, and what each contributes.\<close>

definition has_quota :: "sub \<Rightarrow> bool" where
  "has_quota r =
     (enabled r \<and> (case userInfo r of None \<Rightarrow> False
                    | Some ui \<Rightarrow> (case total ui of None \<Rightarrow> False | Some t \<Rightarrow> t > 0)))"

definition remaining_of :: "sub \<Rightarrow> int" where
  "remaining_of r =
     (case userInfo r of
        None \<Rightarrow> 0
      | Some ui \<Rightarrow>
          max 0 ((case total ui of None \<Rightarrow> 0 | Some t \<Rightarrow> t)
                 - ((case upload ui of None \<Rightarrow> 0 | Some u \<Rightarrow> u)
                    + (case download ui of None \<Rightarrow> 0 | Some d \<Rightarrow> d))))"

section \<open>Exceptions\<close>

text \<open>
  \<open>try { body } catch { handler }\<close>: the state the body reached when it threw is the
  state the handler starts from. \<open>finally\<close> runs its block on either way out.
\<close>

definition try_catch ::
  "completion \<times> state \<Rightarrow> (state \<Rightarrow> completion \<times> state) \<Rightarrow> completion \<times> state" where
  "try_catch r handler = (case r of (Abrupt, s) \<Rightarrow> handler s | (Normal, s) \<Rightarrow> (Normal, s))"

definition try_finally :: "completion \<times> state \<Rightarrow> (state \<Rightarrow> state) \<Rightarrow> completion \<times> state" where
  "try_finally r cleanup = (fst r, cleanup (snd r))"

text \<open>A write to fields of the object at an address.\<close>

definition modify :: "addr \<Rightarrow> (sub \<Rightarrow> sub) \<Rightarrow> state \<Rightarrow> state" where
  "modify a f s = s\<lparr>heap := (heap s)(a := f (heap s a))\<rparr>"

section \<open>Timers of the event loop\<close>

text \<open>
  \<open>setInterval\<close> registers a callback under a handle not issued before and returns
  the handle; \<open>clearInterval\<close> removes it and ignores a handle that is not live.
  Handles are positive in a browser, so the test \<open>if (updateTimer)\<close> of the source
  is a test for a handle being present. The runtime keeps the delay of a timer as a
  signed 32-bit number of milliseconds: a delay below 1 or above \<open>2^31 - 1\<close> is run
  as a delay of 1.
\<close>

definition timer_delay :: "int \<Rightarrow> int" where
  "timer_delay ms = (if ms < 1 \<or> ms > 2147483647 then 1 else ms)"

definition setInterval :: "timer_action \<Rightarrow> int \<Rightarrow> state \<Rightarrow> handle \<times> state" where
  "setInterval act ms s =
     (nextHandle s,
      s\<lparr>timers := (timers s)(nextHandle s \<mapsto> \<lparr>period = timer_delay ms, action = act\<rparr>),
        nextHandle := Suc (nextHandle s)\<rparr>)"

definition clearInterval :: "handle \<Rightarrow> state \<Rightarrow> state" where
  "clearInterval h s = s\<lparr>timers := (timers s)(h := None)\<rparr>"

section \<open>Applying the results of a batch call\<close>

text \<open>
  The body of \<open>result.results.forEach\<close>, the same text in \<open>setupAutoUpdate\<close>,
  \<open>setupIndividualUpdateTimers\<close> and \<open>addSubscriptionsFromBulk\<close>.
\<close>

definition applyUpdateResult :: "update_result \<Rightarrow> state \<Rightarrow> state" where
  "applyUpdateResult updateResult s =
     (if res_success updateResult then
        (case find_sub s (res_id updateResult) of
           Some a \<Rightarrow> modify a (\<lambda>r. r\<lparr>nodeCount := res_nodeCount updateResult\<rparr>) s
         | None \<Rightarrow> s)
      else s)"

definition applyUpdateResults :: "update_result list \<Rightarrow> state \<Rightarrow> state" where
  "applyUpdateResults rs s = fold applyUpdateResult rs s"

definition successCount :: "batch_result \<Rightarrow> nat" where
  "successCount result = length (filter res_success (results result))"

section \<open>Global scheduler\<close>

definition setupAutoUpdate :: "state \<Rightarrow> state" where
  "setupAutoUpdate s =
     (let s1 = (case updateTimer s of
                  Some h \<Rightarrow> (clearInterval h s)\<lparr>updateTimer := None\<rparr>
                | None \<Rightarrow> s)
      in if updateInterval_ref s1 > 0 then
           (case setInterval AutoUpdate (updateInterval_ref s1 * 60 * 1000) s1 of
              (h, s2) \<Rightarrow> s2\<lparr>updateTimer := Some h\<rparr>)
         else s1)"

text \<open>
  A tick of the global timer, up to its \<open>await\<close>. The \<open>filter\<close> stands before
  the \<open>try\<close>: on an enabled record without url it throws and the tick ends there.
  Otherwise the number of records submitted is kept for the notification.
\<close>

definition autoUpdateTick_begin :: "state \<Rightarrow> nat begun \<times> state" where
  "autoUpdateTick_begin s =
     (if list_ex (\<lambda>a. url_throws (heap s a)) (subscriptions s) then (Threw, s)
      else
        (let enabledSubs = filter (\<lambda>a. enabled (heap s a) \<and> has_http (heap s a)) (subscriptions s)
         in if length enabledSubs > 0 then
              (Awaiting (length enabledSubs),
               emit (BatchUpdateNodes (map (\<lambda>a. sub_id (heap s a)) enabledSubs)) s)
            else (Returned, s)))"

text \<open>The rest of the tick, once the batch call has answered.\<close>

definition autoUpdateTick_resume :: "nat \<Rightarrow> batch_outcome \<Rightarrow> state \<Rightarrow> completion \<times> state" where
  "autoUpdateTick_resume n out s =
     try_catch
       (case out of
          BatchThrew \<Rightarrow> (Abrupt, s)
        | BatchReturned result \<Rightarrow>
            if success result then
              (Normal,
               markDirty (showToast (AutoUpdateDone (successCount result) n) Success
                 (applyUpdateResults (results result) s)))
            else (Normal, emit ConsoleError s))
       (\<lambda>s. (Normal, emit ConsoleError s))"

definition handleUpdateIntervalChange :: "int \<Rightarrow> state \<Rightarrow> state" where
  "handleUpdateIntervalChange newInterval s = setupAutoUpdate (s\<lparr>updateInterval_ref := newInterval\<rparr>)"

text \<open>
  \<open>initializeUpdateInterval\<close>, once \<open>fetchSettings\<close> has answered: \<open>None\<close> when
  it threw, otherwise the \<open>updateInterval\<close> of the settings, if any.
\<close>

definition initializeUpdateInterval :: "int option option \<Rightarrow> state \<Rightarrow> state" where
  "initializeUpdateInterval settings s =
     (case settings of
        None \<Rightarrow> emit ConsoleError s
      | Some v \<Rightarrow> setupAutoUpdate (s\<lparr>updateInterval_ref := (case v of None \<Rightarrow> 0 | Some n \<Rightarrow> n)\<rparr>))"

section \<open>Per-item scheduler\<close>

text \<open>The callback of \<open>forEach\<close> in \<open>clearIndividualUpdateTimers\<close>.\<close>

definition clearTimersOf :: "addr \<Rightarrow> state \<Rightarrow> state" where
  "clearTimersOf a s =
     (case updateTimers (heap s a) of
        None \<Rightarrow> s
      | Some hs \<Rightarrow>
          if length hs > 0 then
            modify a (\<lambda>r. r\<lparr>updateTimers := Some []\<rparr>) (fold clearInterval hs s)
          else s)"

definition clearIndividualUpdateTimers :: "state \<Rightarrow> state" where
  "clearIndividualUpdateTimers s = fold clearTimersOf (subscriptions s) s"

text \<open>The condition under which a record gets a timer of its own.\<close>

definition eligible :: "sub \<Rightarrow> bool" where
  "eligible r =
     (enabled r \<and> has_http r \<and>
      (case updateInterval r of None \<Rightarrow> False | Some m \<Rightarrow> m \<noteq> 0 \<and> m > 0))"

text \<open>
  The callback of \<open>forEach\<close> in \<open>setupIndividualUpdateTimers\<close>. Its condition
  throws on an enabled record without url.
\<close>

definition armTimerOf :: "addr \<Rightarrow> state \<Rightarrow> completion \<times> state" where
  "armTimerOf a s =
     (if url_throws (heap s a) then (Abrupt, s)
      else if eligible (heap s a) then
        (case updateInterval (heap s a) of
           None \<Rightarrow> (Normal, s)
         | Some m \<Rightarrow>
             (case setInterval (IndividualUpdate a) (m * 60 * 1000) s of
                (timerId, s1) \<Rightarrow>
                  let s2 = (case updateTimers (heap s1 a) of
                              None \<Rightarrow> modify a (\<lambda>r. r\<lparr>updateTimers := Some []\<rparr>) s1
                            | Some _ \<Rightarrow> s1)
                  in (Normal,
                      modify a (\<lambda>r. r\<lparr>updateTimers :=
                                      map_option (\<lambda>hs. hs @ [timerId]) (updateTimers r)\<rparr>) s2)))
      else (Normal, s))"

text \<open>\<open>forEach\<close> with a callback that may throw: the exception ends the loop.\<close>

fun forEach :: "(addr \<Rightarrow> state \<Rightarrow> completion \<times> state) \<Rightarrow> addr list \<Rightarrow> state \<Rightarrow> completion \<times> state" where
  "forEach f [] s = (Normal, s)"
| "forEach f (a # as) s =
     (case f a s of
        (Abrupt, s1) \<Rightarrow> (Abrupt, s1)
      | (Normal, s1) \<Rightarrow> forEach f as s1)"

definition setupIndividualUpdateTimers :: "state \<Rightarrow> completion \<times> state" where
  "setupIndividualUpdateTimers s =
     (let s1 = clearIndividualUpdateTimers s in forEach armTimerOf (subscriptions s1) s1)"

text \<open>A tick of the timer armed for the object at \<open>a\<close>, up to its \<open>await\<close>.\<close>

definition individualTick_begin :: "addr \<Rightarrow> state \<Rightarrow> state" where
  "individualTick_begin a s = emit (BatchUpdateNodes [sub_id (heap s a)]) s"

definition individualTick_resume :: "addr \<Rightarrow> batch_outcome \<Rightarrow> state \<Rightarrow> completion \<times> state" where
  "individualTick_resume a out s =
     try_catch
       (case out of
          BatchThrew \<Rightarrow> (Abrupt, s)
        | BatchReturned result \<Rightarrow>
            if success result then
              (let s1 = applyUpdateResults (results result) s
               in (Normal, markDirty (showToast (IndividualUpdateDone (name (heap s1 a))) Success s1)))
            else (Normal, emit ConsoleError s))
       (\<lambda>s. (Normal, emit ConsoleError s))"

definition handleSubscriptionUpdateIntervalChange ::
  "string \<Rightarrow> int option \<Rightarrow> state \<Rightarrow> completion \<times> state" where
  "handleSubscriptionUpdateIntervalChange subId newInterval s =
     (case find_sub s subId of
        Some a \<Rightarrow> setupIndividualUpdateTimers (modify a (\<lambda>r. r\<lparr>updateInterval := newInterval\<rparr>) s)
      | None \<Rightarrow> (Normal, s))"

definition onUnmounted :: "state \<Rightarrow> state" where
  "onUnmounted s =
     clearIndividualUpdateTimers
       (case updateTimer s of
          Some h \<Rightarrow> (clearInterval h s)\<lparr>updateTimer := None\<rparr>
        | None \<Rightarrow> s)"

section \<open>Initialisation\<close>

text \<open>
  The object literal of \<open>initializeSubscriptions\<close>, for a seed and the identifier
  chosen for it. \<open>??\<close> replaces only a missing value; \<open>||\<close> also replaces
  \<open>0\<close> and the empty string.
\<close>

definition normalize :: "raw_sub \<Rightarrow> string \<Rightarrow> sub" where
  "normalize r i =
     \<lparr>sub_id = i,
      name = r_name r,
      url = r_url r,
      enabled = (case r_enabled r of None \<Rightarrow> True | Some b \<Rightarrow> b),
      nodeCount = Some (case r_nodeCount r of None \<Rightarrow> 0 | Some n \<Rightarrow> n),
      isUpdating = False,
      userInfo = r_userInfo r,
      exclude = (case r_exclude r of None \<Rightarrow> [] | Some e \<Rightarrow> e),
      updateInterval = (case r_updateInterval r of None \<Rightarrow> None
                        | Some m \<Rightarrow> if m = 0 then None else Some m),
      updateTimers = r_updateTimers r\<rparr>"

text \<open>
  \<open>sub.id || crypto.randomUUID()\<close>: the identifier of the seed unless it is missing
  or the empty string. \<open>crypto.randomUUID()\<close> is a collaborator: \<open>uuid k\<close> is what
  its \<open>k\<close>-th call returns.
\<close>

definition lacks_id :: "raw_sub \<Rightarrow> bool" where
  "lacks_id r = (case r_id r of None \<Rightarrow> True | Some i \<Rightarrow> i = [])"

definition chosen_id :: "(nat \<Rightarrow> string) \<Rightarrow> nat \<Rightarrow> raw_sub \<Rightarrow> string" where
  "chosen_id uuid k r = (case r_id r of None \<Rightarrow> uuid k | Some i \<Rightarrow> if i = [] then uuid k else i)"

text \<open>The \<open>map\<close> over the seeds; \<open>k\<close> counts the identifiers drawn so far.\<close>

fun initRecords :: "(nat \<Rightarrow> string) \<Rightarrow> nat \<Rightarrow> raw_sub list \<Rightarrow> sub list" where
  "initRecords uuid k [] = []"
| "initRecords uuid k (r # rs) =
     normalize r (chosen_id uuid k r) # initRecords uuid (if lacks_id r then Suc k else k) rs"

text \<open>New objects get the next free addresses of the store.\<close>

fun alloc :: "sub list \<Rightarrow> state \<Rightarrow> addr list \<times> state" where
  "alloc [] s = ([], s)"
| "alloc (r # rs) s =
     (case alloc rs (s\<lparr>heap := (heap s)(nextAddr s := r), nextAddr := Suc (nextAddr s)\<rparr>) of
        (as, s1) \<Rightarrow> (nextAddr s # as, s1))"

definition initializeSubscriptions :: "(nat \<Rightarrow> string) \<Rightarrow> raw_sub list option \<Rightarrow> state \<Rightarrow> state" where
  "initializeSubscriptions uuid subsData s =
     (case alloc (initRecords uuid 0 (case subsData of None \<Rightarrow> [] | Some l \<Rightarrow> l)) s of
        (as, s1) \<Rightarrow> s1\<lparr>subscriptions := as\<rparr>)"

section \<open>Single-item refresh\<close>

text \<open>
  \<open>handleUpdateNodeCount\<close> up to its \<open>await\<close>. The test
  \<open>!subToUpdate.url.startsWith('http')\<close> stands before the \<open>try\<close>: when the
  record found has no url it throws and the call is rejected. Otherwise the call
  returns at once, or it awaits the fetch for the object found.
\<close>

definition handleUpdateNodeCount_begin :: "string \<Rightarrow> bool \<Rightarrow> state \<Rightarrow> addr begun \<times> state" where
  "handleUpdateNodeCount_begin subId isInitialLoad s =
     (case find_sub s subId of
        None \<Rightarrow> (Returned, s)
      | Some subToUpdate \<Rightarrow>
          (case url (heap s subToUpdate) of
             None \<Rightarrow> (Threw, s)
           | Some u \<Rightarrow>
               if \<not> is_http u then (Returned, s)
               else
                 (let s1 = (if \<not> isInitialLoad
                            then modify subToUpdate (\<lambda>r. r\<lparr>isUpdating := True\<rparr>) s else s)
                  in (Awaiting subToUpdate, emit (FetchNodeCount u) s1))))"

text \<open>
  The rest of \<open>handleUpdateNodeCount\<close>, once \<open>fetchNodeCount\<close> has answered. A
  response that is no object makes \<open>data.count\<close> throw inside the \<open>try\<close>.
\<close>

definition handleUpdateNodeCount_resume ::
  "addr \<Rightarrow> bool \<Rightarrow> fetch_outcome \<Rightarrow> state \<Rightarrow> completion \<times> state" where
  "handleUpdateNodeCount_resume subToUpdate isInitialLoad out s =
     try_finally
       (try_catch
          (case out of
             Rejected \<Rightarrow> (Abrupt, s)
           | Resolved None \<Rightarrow> (Abrupt, s)
           | Resolved (Some data) \<Rightarrow>
               (let s1 = modify subToUpdate
                           (\<lambda>r. r\<lparr>nodeCount := Some (case count data of None \<Rightarrow> 0 | Some c \<Rightarrow> c)\<rparr>) s;
                    s2 = modify subToUpdate (\<lambda>r. r\<lparr>userInfo := f_userInfo data\<rparr>) s1
                in (Normal,
                    if \<not> isInitialLoad
                    then markDirty (showToast (UpdateSucceeded (name (heap s2 subToUpdate))) Success s2)
                    else s2)))
          (\<lambda>s. (Normal,
                 emit ConsoleError
                   (if \<not> isInitialLoad
                    then showToast (UpdateFailed (name (heap s subToUpdate))) Error s else s))))
       (modify subToUpdate (\<lambda>r. r\<lparr>isUpdating := False\<rparr>))"

text \<open>
  The network as the composable sees it: what \<open>fetchNodeCount\<close> answers, given all
  that has happened up to and including the call.
\<close>

type_synonym fetch_env = "event list \<Rightarrow> fetch_outcome"

text \<open>\<open>handleUpdateNodeCount\<close> run from call to return with nothing in between.\<close>

definition handleUpdateNodeCount :: "fetch_env \<Rightarrow> string \<Rightarrow> bool \<Rightarrow> state \<Rightarrow> completion \<times> state" where
  "handleUpdateNodeCount net subId isInitialLoad s =
     (case handleUpdateNodeCount_begin subId isInitialLoad s of
        (Returned, s1) \<Rightarrow> (Normal, s1)
      | (Threw, s1) \<Rightarrow> (Abrupt, s1)
      | (Awaiting a, s1) \<Rightarrow> handleUpdateNodeCount_resume a isInitialLoad (net (trace s1)) s1)"

section \<open>Store operations\<close>

text \<open>\<open>findIndex\<close>, with \<open>None\<close> for \<open>-1\<close>.\<close>

fun findIndex :: "('a \<Rightarrow> bool) \<Rightarrow> 'a list \<Rightarrow> nat option" where
  "findIndex P [] = None"
| "findIndex P (x # xs) = (if P x then Some 0 else map_option Suc (findIndex P xs))"

text \<open>
  \<open>addSubscription\<close> and \<open>updateSubscription\<close> take the caller's object by
  reference and do not await the refresh they start: they return the object whose
  refresh is left in flight, if any. A refresh that was rejected leaves nothing in
  flight and does not disturb the caller, which holds only the rejected promise.
\<close>

definition in_flight :: "addr begun \<Rightarrow> addr option" where
  "in_flight b = (case b of Awaiting a \<Rightarrow> Some a | Returned \<Rightarrow> None | Threw \<Rightarrow> None)"

definition addSubscription :: "addr \<Rightarrow> state \<Rightarrow> addr option \<times> state" where
  "addSubscription sub s =
     (let s1 = s\<lparr>subscriptions := sub # subscriptions s\<rparr>;
          s2 = s1\<lparr>subsCurrentPage := 1\<rparr>
      in case handleUpdateNodeCount_begin (sub_id (heap s2 sub)) False s2 of
           (p, s3) \<Rightarrow> (in_flight p, markDirty s3))"

definition updateSubscription :: "addr \<Rightarrow> state \<Rightarrow> addr option \<times> state" where
  "updateSubscription updatedSub s =
     (case findIndex (\<lambda>a. sub_id (heap s a) = sub_id (heap s updatedSub)) (subscriptions s) of
        None \<Rightarrow> (None, s)
      | Some index \<Rightarrow>
          (case (if url (heap s (subscriptions s ! index)) \<noteq> url (heap s updatedSub) then
                   (let s1 = modify updatedSub (\<lambda>r. r\<lparr>nodeCount := Some 0\<rparr>) s
                    in handleUpdateNodeCount_begin (sub_id (heap s1 updatedSub)) False s1)
                 else (Returned, s)) of
             (p, s2) \<Rightarrow>
               (in_flight p,
                markDirty (s2\<lparr>subscriptions := (subscriptions s2)[index := updatedSub]\<rparr>))))"

definition deleteSubscription :: "string \<Rightarrow> state \<Rightarrow> state" where
  "deleteSubscription subId s =
     (let s1 = s\<lparr>subscriptions := filter (\<lambda>a. sub_id (heap s a) \<noteq> subId) (subscriptions s)\<rparr>;
          s2 = (if length (paginatedSubscriptions s1) = 0 \<and> subsCurrentPage s1 > 1
                then s1\<lparr>subsCurrentPage := subsCurrentPage s1 - 1\<rparr> else s1)
      in markDirty s2)"

definition deleteAllSubscriptions :: "state \<Rightarrow> state" where
  "deleteAllSubscriptions s = markDirty (s\<lparr>subscriptions := [], subsCurrentPage := 1\<rparr>)"

section \<open>Bulk import\<close>

text \<open>
  \<open>addSubscriptionsFromBulk\<close> up to the \<open>await\<close> of the batch call: the objects
  submitted, if the call was made. Its filter is \<open>sub.url && sub.url.startsWith('http')\<close>,
  which a record without url (or with the empty url) fails without an exception.
\<close>

definition addSubscriptionsFromBulk_begin :: "addr list \<Rightarrow> state \<Rightarrow> addr list begun \<times> state" where
  "addSubscriptionsFromBulk_begin subs s =
     (let s1 = markDirty (s\<lparr>subscriptions := subs @ subscriptions s\<rparr>);
          subsToUpdate = filter (\<lambda>a. case url (heap s1 a) of None \<Rightarrow> False
                                        | Some u \<Rightarrow> u \<noteq> [] \<and> is_http u) subs
      in if length subsToUpdate > 0 then
           (Awaiting subsToUpdate,
            emit (BatchUpdateNodes (map (\<lambda>a. sub_id (heap s1 a)) subsToUpdate))
              (showToast (BulkUpdating (length subsToUpdate)) Success s1))
         else (Returned, showToast BulkImportDone Success s1))"

text \<open>
  \<open>for (const sub of subsToUpdate) await handleUpdateNodeCount(sub.id)\<close>: a call
  that is rejected ends the loop.
\<close>

fun degradeLoop :: "fetch_env \<Rightarrow> addr list \<Rightarrow> state \<Rightarrow> completion \<times> state" where
  "degradeLoop net [] s = (Normal, s)"
| "degradeLoop net (sub # rest) s =
     (case handleUpdateNodeCount net (sub_id (heap s sub)) False s of
        (Abrupt, s1) \<Rightarrow> (Abrupt, s1)
      | (Normal, s1) \<Rightarrow> degradeLoop net rest s1)"

text \<open>The rest of \<open>addSubscriptionsFromBulk\<close>, once the batch call has answered.\<close>

definition addSubscriptionsFromBulk_resume ::
  "fetch_env \<Rightarrow> addr list \<Rightarrow> batch_outcome \<Rightarrow> state \<Rightarrow> completion \<times> state" where
  "addSubscriptionsFromBulk_resume net subsToUpdate out s =
     try_catch
       (case out of
          BatchThrew \<Rightarrow> (Abrupt, s)
        | BatchReturned result \<Rightarrow>
            if success result then
              (Normal,
               markDirty (showToast (BulkUpdateDone (successCount result) (length subsToUpdate)) Success
                 (applyUpdateResults (results result) s)))
            else
              degradeLoop net subsToUpdate
                (showToast BulkDegrading Info (showToast BulkUpdateFailed Error s)))
       (\<lambda>s. degradeLoop net subsToUpdate
               (showToast BulkThrewDegrading Error (emit ConsoleError s)))"

section \<open>A small collection for concrete runs\<close>

text \<open>
  Two records are in the collection: object 0 (identifier \<open>a\<close>, an HTTP URL, an
  interval of five minutes) and object 2 (identifier \<open>b\<close>, a manual node list).
  Object 1 is an edited copy of object 0 with a new URL, not in the collection.
\<close>

definition demo_sub :: sub where
  "demo_sub = \<lparr>sub_id = ''a'', name = ''A'', url = Some ''http://old'', enabled = True,
     nodeCount = Some 5, isUpdating = False, userInfo = None, exclude = [],
     updateInterval = Some 5, updateTimers = None\<rparr>"

definition demo_state :: state where
  "demo_state = \<lparr>heap = (\<lambda>_. demo_sub)(1 := demo_sub\<lparr>url := Some ''http://new''\<rparr>,
                                       2 := demo_sub\<lparr>sub_id := ''b'', url := Some ''manual''\<rparr>),
     nextAddr = 3, subscriptions = [0, 2], subsCurrentPage = 1, updateInterval_ref = 0,
     updateTimer = None, timers = (\<lambda>_. None), nextHandle = 1, trace = []\<rparr>"

section \<open>Auxiliary notions for the statements\<close>

text \<open>The URLs fetched, in order, in a history.\<close>

fun fetched :: "event list \<Rightarrow> string list" where
  "fetched [] = []"
| "fetched (FetchNodeCount u # es) = u # fetched es"
| "fetched (e # es) = fetched es"

text \<open>The successful results that \<open>find\<close> resolves to the object at \<open>a\<close>.\<close>

definition hits :: "state \<Rightarrow> update_result list \<Rightarrow> addr \<Rightarrow> update_result list" where
  "hits s rs a = filter (\<lambda>r. res_success r \<and> find_sub s (res_id r) = Some a) rs"

definition demo_quota :: state where
  "demo_quota = demo_state
     \<lparr>heap := (heap demo_state)
        (0 := demo_sub\<lparr>userInfo := Some \<lparr>upload = Some 30, download = None, total = Some 100\<rparr>\<rparr>,
         2 := demo_sub\<lparr>sub_id := ''b'',
                userInfo := Some \<lparr>upload = Some 500, download = Some 1, total = Some 100\<rparr>\<rparr>),
      subsCurrentPage := 2\<rparr>"

definition demo_results :: "update_result list" where
  "demo_results =
     [\<lparr>res_id = ''a'', res_success = True, res_nodeCount = Some 42\<rparr>,
      \<lparr>res_id = ''b'', res_success = False, res_nodeCount = None\<rparr>]"

text \<open>
  Three seeds: one without identifier, one complete, and one with the empty identifier
  and no url.
\<close>

definition demo_seeds :: "raw_sub list" where
  "demo_seeds =
     [\<lparr>r_id = None, r_name = ''A'', r_url = Some ''http://x'', r_enabled = None, r_nodeCount = None,
       r_userInfo = None, r_exclude = None, r_updateInterval = None, r_updateTimers = None\<rparr>,
      \<lparr>r_id = Some ''k'', r_name = ''B'', r_url = Some ''http://y'', r_enabled = Some False,
       r_nodeCount = Some 3, r_userInfo = None, r_exclude = Some ''x'', r_updateInterval = Some 0,
       r_updateTimers = None\<rparr>,
      \<lparr>r_id = Some [], r_name = ''C'', r_url = None, r_enabled = None, r_nodeCount = None,
       r_userInfo = None, r_exclude = None, r_updateInterval = None, r_updateTimers = None\<rparr>]"

definition demo_uuid :: "nat \<Rightarrow> string" where
  "demo_uuid k = replicate (Suc k) CHR ''u''"

definition demo_fetched :: fetch_outcome where
  "demo_fetched = Resolved (Some \<lparr>count = Some 7, f_userInfo = None\<rparr>)"

text \<open>
  The collection above with two more records in front, as after a bulk import of
  objects 3 and 4 (identifiers \<open>c\<close> and \<open>d\<close>, both with HTTP URLs).
\<close>

definition demo_imported :: state where
  "demo_imported = demo_state
     \<lparr>heap := (heap demo_state)
        (3 := demo_sub\<lparr>sub_id := ''c'', name := ''C'', url := Some ''http://c''\<rparr>,
         4 := demo_sub\<lparr>sub_id := ''d'', name := ''D'', url := Some ''http://d''\<rparr>),
      nextAddr := 5,
      subscriptions := [3, 4, 0, 2]\<rparr>"

text \<open>
  One refresh after the other, as a history: each fetch is issued only when the answer
  to the one before has been dealt with, so every \<open>FetchNodeCount\<close> is followed by
  the notification and the dirty signal or log entry of its own answer before the next
  \<open>FetchNodeCount\<close>. The list gives the url and the name of each record in turn.
\<close>

definition reply_events :: "string \<Rightarrow> fetch_outcome \<Rightarrow> event list" where
  "reply_events n out =
     (case out of
        Resolved (Some d) \<Rightarrow> [ShowToast (UpdateSucceeded n) Success, MarkDirty]
      | Resolved None \<Rightarrow> [ShowToast (UpdateFailed n) Error, ConsoleError]
      | Rejected \<Rightarrow> [ShowToast (UpdateFailed n) Error, ConsoleError])"

fun one_by_one :: "fetch_env \<Rightarrow> (string \<times> string) list \<Rightarrow> event list \<Rightarrow> event list" where
  "one_by_one net [] tr = tr"
| "one_by_one net ((u, n) # rest) tr =
     one_by_one net rest
       (tr @ [FetchNodeCount u] @ reply_events n (net (tr @ [FetchNodeCount u])))"

text \<open>The url of a record that has one.\<close>

definition url_of :: "sub \<Rightarrow> string" where
  "url_of r = (case url r of None \<Rightarrow> [] | Some u \<Rightarrow> u)"

text \<open>A network that answers the fetch of \<open>http://c\<close> and rejects every other.\<close>

definition demo_net :: fetch_env where
  "demo_net tr = (if tr \<noteq> [] \<and> last tr = FetchNodeCount ''http://c'' then demo_fetched else Rejected)"

text \<open>What bulk import tells the user before it degrades.\<close>

definition degradeNotice :: "batch_outcome \<Rightarrow> state \<Rightarrow> state" where
  "degradeNotice out s =
     (case out of
        BatchThrew \<Rightarrow> showToast BulkThrewDegrading Error (emit ConsoleError s)
      | BatchReturned _ \<Rightarrow> showToast BulkDegrading Info (showToast BulkUpdateFailed Error s))"

section \<open>Steps of the composable\<close>

text \<open>
  Every piece of code that runs without interruption is a step: a store operation, a
  tick up to its \<open>await\<close>, or the continuation that runs when a collaborator
  answers. A continuation carries what its closure captured; taking it as a step on its
  own lets any other step run between a call and its answer.
\<close>

datatype command =
    Initialize "nat \<Rightarrow> string" "raw_sub list option"
  | Add addr
  | AddBulk "addr list"
  | BulkAnswer fetch_env "addr list" batch_outcome
  | Update addr
  | Delete string
  | DeleteAll
  | Refresh string bool
  | RefreshAnswer addr bool fetch_outcome
  | GlobalTick
  | GlobalTickAnswer nat batch_outcome
  | ItemTick addr
  | ItemTickAnswer addr batch_outcome
  | IntervalChange int
  | SubscriptionIntervalChange string "int option"
  | SettingsAnswer "int option option"
  | Mounted
  | Unmounted
  | ChangePage int

fun exec :: "command \<Rightarrow> state \<Rightarrow> state" where
  "exec (Initialize uuid subsData) s = initializeSubscriptions uuid subsData s"
| "exec (Add a) s = snd (addSubscription a s)"
| "exec (AddBulk as) s = snd (addSubscriptionsFromBulk_begin as s)"
| "exec (BulkAnswer net as out) s = snd (addSubscriptionsFromBulk_resume net as out s)"
| "exec (Update u) s = snd (updateSubscription u s)"
| "exec (Delete i) s = deleteSubscription i s"
| "exec DeleteAll s = deleteAllSubscriptions s"
| "exec (Refresh i b) s = snd (handleUpdateNodeCount_begin i b s)"
| "exec (RefreshAnswer a b out) s = snd (handleUpdateNodeCount_resume a b out s)"
| "exec GlobalTick s = snd (autoUpdateTick_begin s)"
| "exec (GlobalTickAnswer n out) s = snd (autoUpdateTick_resume n out s)"
| "exec (ItemTick a) s = individualTick_begin a s"
| "exec (ItemTickAnswer a out) s = snd (individualTick_resume a out s)"
| "exec (IntervalChange n) s = handleUpdateIntervalChange n s"
| "exec (SubscriptionIntervalChange i n) s = snd (handleSubscriptionUpdateIntervalChange i n s)"
| "exec (SettingsAnswer v) s = initializeUpdateInterval v s"
| "exec Mounted s = snd (setupIndividualUpdateTimers s)"
| "exec Unmounted s = onUnmounted s"
| "exec (ChangePage p) s = changeSubsPage p s"

text \<open>The identifiers of the collection, in order.\<close>

definition ids :: "state \<Rightarrow> string list" where
  "ids s = map (\<lambda>a. sub_id (heap s a)) (subscriptions s)"

definition unique_ids :: "state \<Rightarrow> bool" where
  "unique_ids s = (distinct (ids s) \<and> [] \<notin> set (ids s))"

text \<open>
  The identifiers that seeds bring along (those that are neither missing nor empty),
  and the values \<open>crypto.randomUUID\<close> returns for the seeds that bring none.
\<close>

definition given_ids :: "raw_sub list \<Rightarrow> string list" where
  "given_ids raws =
     concat (map (\<lambda>r. case r_id r of None \<Rightarrow> [] | Some i \<Rightarrow> if i = [] then [] else [i]) raws)"

definition drawn_ids :: "(nat \<Rightarrow> string) \<Rightarrow> raw_sub list \<Rightarrow> string list" where
  "drawn_ids uuid raws = map uuid [0 ..< length (filter lacks_id raws)]"

text \<open>
  What the callers must supply for uniqueness to survive, since the code never compares
  an incoming identifier with those it holds: the records added carry non-empty
  identifiers, different from each other and from those of the collection; the seeds
  bring pairwise different identifiers, and \<open>crypto.randomUUID\<close> returns non-empty
  values, different from each other and from the identifiers of the seeds.
\<close>

fun fresh_input :: "command \<Rightarrow> state \<Rightarrow> bool" where
  "fresh_input (Initialize uuid subsData) s =
     (let raws = (case subsData of None \<Rightarrow> [] | Some l \<Rightarrow> l)
      in distinct (given_ids raws @ drawn_ids uuid raws) \<and> [] \<notin> set (drawn_ids uuid raws))"
| "fresh_input (Add a) s = (sub_id (heap s a) \<noteq> [] \<and> sub_id (heap s a) \<notin> set (ids s))"
| "fresh_input (AddBulk as) s =
     (let given = map (\<lambda>a. sub_id (heap s a)) as
      in distinct (given @ ids s) \<and> [] \<notin> set given)"
| "fresh_input c s = True"

fun run :: "command list \<Rightarrow> state \<Rightarrow> state" where
  "run [] s = s"
| "run (c # cs) s = run cs (exec c s)"

fun fresh_inputs :: "command list \<Rightarrow> state \<Rightarrow> bool" where
  "fresh_inputs [] s = True"
| "fresh_inputs (c # cs) s = (fresh_input c s \<and> fresh_inputs cs (exec c s))"

text \<open>Two states with the same collection and the same identifier on every object.\<close>

definition keeps_ids :: "state \<Rightarrow> state \<Rightarrow> bool" where
  "keeps_ids s s' = (subscriptions s' = subscriptions s \<and> (\<forall>x. sub_id (heap s' x) = sub_id (heap s x)))"

text \<open>The callback of the arming loop, for its effect on the state.\<close>

definition arm :: "addr \<Rightarrow> state \<Rightarrow> state" where
  "arm a s = snd (armTimerOf a s)"

text \<open>The timer handles an object holds in \<open>updateTimers\<close>.\<close>

definition tracked :: "state \<Rightarrow> addr \<Rightarrow> handle list" where
  "tracked s a = (case updateTimers (heap s a) of None \<Rightarrow> [] | Some hs \<Rightarrow> hs)"

text \<open>
  What the event loop runs when timer \<open>h\<close> fires, up to the first \<open>await\<close>: the
  callback given to \<open>setInterval\<close> when the timer was armed.
\<close>

definition timer_tick :: "handle \<Rightarrow> state \<Rightarrow> state" where
  "timer_tick h s =
     (case timers s h of
        None \<Rightarrow> s
      | Some t \<Rightarrow>
          (case action t of
             AutoUpdate \<Rightarrow> snd (autoUpdateTick_begin s)
           | IndividualUpdate a \<Rightarrow> individualTick_begin a s))"

section \<open>Derived views: proofs\<close>

lemma subsTotalPages_ceiling:
  "subsTotalPages s = \<lceil>real (length (subscriptions s)) / 6\<rceil>"
proof -
  have "\<lceil>real (length (subscriptions s)) / 6\<rceil> = \<lceil>real_of_int (int (length (subscriptions s))) / real_of_int 6\<rceil>"
    by simp
  also have "\<dots> = - ((- int (length (subscriptions s))) div 6)"
    by (simp only: ceiling_divide_eq_div)
  also have "\<dots> = (int (length (subscriptions s)) + 6 - 1) div 6"
    by presburger
  finally show ?thesis
    by (simp add: subsTotalPages_def subsItemsPerPage_def)
qed

lemma trafficStep_eq:
  "trafficStep acc r = acc + (if has_quota r then remaining_of r else 0)"
  by (simp add: trafficStep_def has_quota_def remaining_of_def Let_def split: option.splits)

lemma foldl_trafficStep:
  "foldl trafficStep acc rs = acc + sum_list (map remaining_of (filter has_quota rs))"
  by (induction rs arbitrary: acc) (simp_all add: trafficStep_eq)

lemma remaining_of_nonneg: "0 \<le> remaining_of r"
  by (simp add: remaining_of_def split: option.splits)

lemma paginated_empty:
  assumes "subsCurrentPage s > subsTotalPages s"
  shows "paginatedSubscriptions s = []"
proof -
  let ?n = "int (length (subscriptions s))"
  from assms have "(?n + 5) div 6 < subsCurrentPage s"
    by (simp add: subsTotalPages_def subsItemsPerPage_def)
  then have "?n \<le> (subsCurrentPage s - 1) * 6" by presburger
  then show ?thesis
    by (simp add: paginatedSubscriptions_def js_slice_def Let_def subsItemsPerPage_def)
qed

text \<open>
  C7. The derived views are functions of the state alone. \<open>subsTotalPages\<close> is the
  ceiling of the number of records divided by 6; the page slice is empty whenever the
  current page lies beyond the last page; and \<open>totalRemainingTraffic\<close> is the sum,
  over exactly the records that are enabled and carry a \<open>userInfo\<close> with
  \<open>total > 0\<close>, of \<open>max 0 (total - (upload + download))\<close>, each summand
  being non-negative.
\<close>

theorem C7_derived_views:
  "subsTotalPages s = \<lceil>real (length (subscriptions s)) / 6\<rceil>
   \<and> (subsCurrentPage s > subsTotalPages s \<longrightarrow> paginatedSubscriptions s = [])
   \<and> totalRemainingTraffic s
       = sum_list (map remaining_of (filter has_quota (map (heap s) (subscriptions s))))
   \<and> (\<forall>r::sub. has_quota r \<longleftrightarrow>
          enabled r \<and> (\<exists>ui t. userInfo r = Some ui \<and> total ui = Some t \<and> t > 0))
   \<and> (\<forall>(r::sub) ui t. userInfo r = Some ui \<and> total ui = Some t \<longrightarrow>
          remaining_of r
            = max 0 (t - ((case upload ui of None \<Rightarrow> 0 | Some u \<Rightarrow> u)
                          + (case download ui of None \<Rightarrow> 0 | Some d \<Rightarrow> d))))
   \<and> (\<forall>r::sub. 0 \<le> remaining_of r)"
proof (intro conjI allI impI)
  show "subsTotalPages s = \<lceil>real (length (subscriptions s)) / 6\<rceil>"
    by (rule subsTotalPages_ceiling)
next
  assume "subsCurrentPage s > subsTotalPages s"
  then show "paginatedSubscriptions s = []" by (rule paginated_empty)
next
  show "totalRemainingTraffic s
       = sum_list (map remaining_of (filter has_quota (map (heap s) (subscriptions s))))"
    by (simp add: totalRemainingTraffic_def foldl_trafficStep)
next
  fix r :: sub show "has_quota r \<longleftrightarrow>
          enabled r \<and> (\<exists>ui t. userInfo r = Some ui \<and> total ui = Some t \<and> t > 0)"
    by (auto simp: has_quota_def split: option.splits)
next
  fix r :: sub and ui t assume "userInfo r = Some ui \<and> total ui = Some t"
  then show "remaining_of r
            = max 0 (t - ((case upload ui of None \<Rightarrow> 0 | Some u \<Rightarrow> u)
                          + (case download ui of None \<Rightarrow> 0 | Some d \<Rightarrow> d)))"
    by (simp add: remaining_of_def)
next
  fix r :: sub show "0 \<le> remaining_of r" by (rule remaining_of_nonneg)
qed

theorem C7_witness:
  "subsCurrentPage demo_quota > subsTotalPages demo_quota
   \<and> paginatedSubscriptions demo_quota = []
   \<and> totalRemainingTraffic demo_quota = 70"
proof -
  have p: "subsCurrentPage demo_quota > subsTotalPages demo_quota"
    by (simp add: demo_quota_def demo_state_def subsTotalPages_def subsItemsPerPage_def)
  have q: "sum_list (map remaining_of (filter has_quota (map (heap demo_quota) (subscriptions demo_quota)))) = 70"
    by (simp add: demo_quota_def demo_state_def demo_sub_def has_quota_def remaining_of_def)
  from C7_derived_views [of demo_quota] p q show ?thesis by simp
qed

section \<open>Single-item refresh: proofs\<close>

lemma resume_normal: "fst (handleUpdateNodeCount_resume a i out s) = Normal"
  by (simp add: handleUpdateNodeCount_resume_def try_finally_def try_catch_def Let_def split: fetch_outcome.splits option.splits)

lemma resume_not_updating: "\<not> isUpdating (heap (snd (handleUpdateNodeCount_resume a i out s)) a)"
  by (simp add: handleUpdateNodeCount_resume_def try_finally_def modify_def)

lemma resume_failure_trace:
  "out = Rejected \<or> out = Resolved None \<Longrightarrow>
   trace (snd (handleUpdateNodeCount_resume a i out s))
     = trace s @ (if i then [] else [ShowToast (UpdateFailed (name (heap s a))) Error]) @ [ConsoleError]"
  by (auto simp add: handleUpdateNodeCount_resume_def try_finally_def try_catch_def modify_def emit_def showToast_def)

lemma begin_noop:
  "find_sub s subId = None
   \<or> (\<exists>a u. find_sub s subId = Some a \<and> url (heap s a) = Some u \<and> \<not> is_http u)
   \<Longrightarrow> handleUpdateNodeCount_begin subId i s = (Returned, s)"
  by (auto simp: handleUpdateNodeCount_begin_def)

lemma begin_threw:
  "find_sub s subId = Some a \<Longrightarrow> url (heap s a) = None
   \<Longrightarrow> handleUpdateNodeCount_begin subId i s = (Threw, s)"
  by (simp add: handleUpdateNodeCount_begin_def)

lemma begin_issued:
  assumes "find_sub s subId = Some a" "url (heap s a) = Some u" "is_http u"
  shows "handleUpdateNodeCount_begin subId i s
           = (Awaiting a, emit (FetchNodeCount u)
                            (if i then s else modify a (\<lambda>r. r\<lparr>isUpdating := True\<rparr>) s))"
  using assms by (simp add: handleUpdateNodeCount_begin_def Let_def modify_def emit_def)

lemma refresh_threw:
  "find_sub s subId = Some a \<Longrightarrow> url (heap s a) = None
   \<Longrightarrow> handleUpdateNodeCount net subId i s = (Abrupt, s)"
  by (simp add: handleUpdateNodeCount_def begin_threw)

lemma demo_find_a: "find_sub demo_state ''a'' = Some 0"
  by (simp add: find_sub_def demo_state_def demo_sub_def)

lemma demo_http_0: "url (heap demo_state 0) = Some ''http://old''" "is_http ''http://old''"
  by (simp_all add: is_http_def demo_state_def demo_sub_def)

section \<open>Batch results: proofs\<close>

lemma fetched_append: "fetched (es @ fs) = fetched es @ fetched fs"
  by (induction es rule: fetched.induct) simp_all

lemma find_sub_frame:
  assumes "subscriptions s' = subscriptions s" "\<And>a. sub_id (heap s' a) = sub_id (heap s a)"
  shows "find_sub s' i = find_sub s i"
  using assms by (simp add: find_sub_def)

lemma find_sub_member: "find_sub s i = Some a \<Longrightarrow> a \<in> set (subscriptions s) \<and> sub_id (heap s a) = i"
  by (auto simp: find_sub_def find_Some_iff)

lemma find_sub_distinct:
  assumes "distinct (map (\<lambda>a. sub_id (heap s a)) (subscriptions s))" "a \<in> set (subscriptions s)"
  shows "find_sub s (sub_id (heap s a)) = Some a"
proof -
  have "distinct (map f xs) \<Longrightarrow> a \<in> set xs \<Longrightarrow> List.find (\<lambda>x. f x = f a) xs = Some a"
    for f :: "addr \<Rightarrow> string" and xs
    by (induction xs) auto
  with assms show ?thesis by (simp add: find_sub_def)
qed

lemma apply_one_frame:
  "applyUpdateResult r s = s\<lparr>heap := heap (applyUpdateResult r s)\<rparr>"
  by (simp add: applyUpdateResult_def modify_def split: option.splits)

lemma apply_one_subs [simp]: "subscriptions (applyUpdateResult r s) = subscriptions s"
  and apply_one_trace [simp]: "trace (applyUpdateResult r s) = trace s"
  by (simp_all add: applyUpdateResult_def modify_def split: option.splits)

lemma apply_one_heap:
  "heap (applyUpdateResult r s) a
     = (if res_success r \<and> find_sub s (res_id r) = Some a
        then (heap s a)\<lparr>nodeCount := res_nodeCount r\<rparr> else heap s a)"
  by (simp add: applyUpdateResult_def modify_def split: option.splits)

lemma apply_one_find [simp]: "find_sub (applyUpdateResult r s) i = find_sub s i"
  by (rule find_sub_frame) (simp_all add: apply_one_heap)

lemma apply_one_unmatched: "find_sub s (res_id r) = None \<Longrightarrow> applyUpdateResult r s = s"
  by (simp add: applyUpdateResult_def)

lemma apply_all_snoc: "applyUpdateResults (rs @ [r]) s = applyUpdateResult r (applyUpdateResults rs s)"
  by (simp add: applyUpdateResults_def)

lemma apply_all_subs [simp]: "subscriptions (applyUpdateResults rs s) = subscriptions s"
  by (induction rs rule: rev_induct) (simp_all add: apply_all_snoc, simp add: applyUpdateResults_def)

lemma apply_all_trace [simp]: "trace (applyUpdateResults rs s) = trace s"
  by (induction rs rule: rev_induct) (simp_all add: apply_all_snoc, simp add: applyUpdateResults_def)

lemma apply_all_find [simp]: "find_sub (applyUpdateResults rs s) i = find_sub s i"
  by (induction rs rule: rev_induct) (simp_all add: apply_all_snoc, simp add: applyUpdateResults_def)

lemma apply_all_heap:
  "heap (applyUpdateResults rs s) a
     = (if hits s rs a = [] then heap s a
        else (heap s a)\<lparr>nodeCount := res_nodeCount (last (hits s rs a))\<rparr>)"
proof (induction rs rule: rev_induct)
  case Nil
  show ?case by (simp add: applyUpdateResults_def hits_def)
next
  case (snoc r rs)
  show ?case
    by (simp add: apply_all_snoc apply_one_heap snoc.IH) (simp add: hits_def)
qed

lemma apply_all_drop_unmatched:
  assumes "find_sub s (res_id r) = None"
  shows "applyUpdateResults (rs1 @ r # rs2) s = applyUpdateResults (rs1 @ rs2) s"
proof -
  have "find_sub (applyUpdateResults rs1 s) (res_id r) = None" using assms by simp
  then have "applyUpdateResult r (applyUpdateResults rs1 s) = applyUpdateResults rs1 s"
    by (rule apply_one_unmatched)
  then show ?thesis by (simp add: applyUpdateResults_def)
qed


lemma tick_resume_success:
  "success result \<Longrightarrow>
   autoUpdateTick_resume n (BatchReturned result) s
     = (Normal, markDirty (showToast (AutoUpdateDone (successCount result) n) Success
                  (applyUpdateResults (results result) s)))"
  by (simp add: autoUpdateTick_resume_def try_catch_def)

lemma bulk_resume_success:
  "success result \<Longrightarrow>
   addSubscriptionsFromBulk_resume net subsToUpdate (BatchReturned result) s
     = (Normal, markDirty (showToast (BulkUpdateDone (successCount result) (length subsToUpdate)) Success
                  (applyUpdateResults (results result) s)))"
  by (simp add: addSubscriptionsFromBulk_resume_def try_catch_def)

lemma notify_heap [simp]: "heap (markDirty (showToast t l s)) = heap s"
  and notify_subs [simp]: "subscriptions (markDirty (showToast t l s)) = subscriptions s"
  and notify_fetched [simp]: "fetched (trace (markDirty (showToast t l s))) = fetched (trace s)"
  by (simp_all add: markDirty_def showToast_def emit_def fetched_append)

lemma hits_empty_outside:
  assumes "a \<notin> set (subscriptions s)"
  shows "hits s rs a = []"
proof -
  have "find_sub s i \<noteq> Some a" for i
    using assms find_sub_member [of s i a] by blast
  then show ?thesis by (simp add: hits_def)
qed

lemma hits_empty_unlisted:
  assumes "sub_id (heap s a) \<notin> set (map res_id (filter res_success rs))"
  shows "hits s rs a = []"
proof -
  have "\<not> (res_success r \<and> find_sub s (res_id r) = Some a)" if "r \<in> set rs" for r
  proof
    assume h: "res_success r \<and> find_sub s (res_id r) = Some a"
    then have "sub_id (heap s a) = res_id r" using find_sub_member [of s "res_id r" a] by blast
    with h that assms show False by auto
  qed
  then show ?thesis by (simp add: hits_def filter_empty_conv)
qed

lemma hits_distinct:
  assumes "distinct (map (\<lambda>a. sub_id (heap s a)) (subscriptions s))" "a \<in> set (subscriptions s)"
  shows "hits s rs a = filter (\<lambda>r. res_success r \<and> res_id r = sub_id (heap s a)) rs"
proof -
  have "find_sub s i = Some a \<longleftrightarrow> i = sub_id (heap s a)" for i
  proof
    assume "find_sub s i = Some a"
    then show "i = sub_id (heap s a)" using find_sub_member [of s i a] by blast
  next
    assume "i = sub_id (heap s a)"
    then show "find_sub s i = Some a" using find_sub_distinct [OF assms] by simp
  qed
  then show ?thesis by (simp add: hits_def)
qed

text \<open>
  C3. When the batch call returns overall success, on the global tick and in bulk
  import alike: the only field of any object that may differ afterwards is
  \<open>nodeCount\<close>, so \<open>userInfo\<close> is never written; an object whose identifier is not
  among the results marked successful, and every object outside the collection, is left
  as it was; with unique identifiers, every record whose identifier is among the
  successful results has its \<open>nodeCount\<close> overwritten by (the last of) them; the
  collection is unchanged; and no single-item fetch is issued, so the failed subset is
  not retried.
\<close>

theorem C3_partial_success:
  assumes "success result"
    and "s' = snd (autoUpdateTick_resume n (BatchReturned result) s)
         \<or> s' = snd (addSubscriptionsFromBulk_resume net subsToUpdate (BatchReturned result) s)"
  shows "(\<forall>a. \<exists>c. heap s' a = (heap s a)\<lparr>nodeCount := c\<rparr>)
       \<and> (\<forall>a. userInfo (heap s' a) = userInfo (heap s a))
       \<and> (\<forall>a. sub_id (heap s a) \<notin> set (map res_id (filter res_success (results result)))
              \<longrightarrow> heap s' a = heap s a)
       \<and> (\<forall>a. a \<notin> set (subscriptions s) \<longrightarrow> heap s' a = heap s a)
       \<and> (distinct (map (\<lambda>a. sub_id (heap s a)) (subscriptions s)) \<longrightarrow>
            (\<forall>a \<in> set (subscriptions s).
               sub_id (heap s a) \<in> set (map res_id (filter res_success (results result))) \<longrightarrow>
               nodeCount (heap s' a)
                 = res_nodeCount (last (filter (\<lambda>r. res_success r \<and> res_id r = sub_id (heap s a))
                                          (results result)))))
       \<and> subscriptions s' = subscriptions s
       \<and> fetched (trace s') = fetched (trace s)"
proof -
  let ?rs = "results result"
  from assms have h: "heap s' = heap (applyUpdateResults ?rs s)"
    and c: "subscriptions s' = subscriptions s"
    and f: "fetched (trace s') = fetched (trace s)"
    by (auto simp: tick_resume_success bulk_resume_success)
  have 1: "\<exists>c. heap s' a = (heap s a)\<lparr>nodeCount := c\<rparr>" for a
  proof (cases "hits s ?rs a = []")
    case True
    then have "heap s' a = (heap s a)\<lparr>nodeCount := nodeCount (heap s a)\<rparr>"
      by (simp add: h apply_all_heap)
    then show ?thesis ..
  next
    case False
    then have "heap s' a = (heap s a)\<lparr>nodeCount := res_nodeCount (last (hits s ?rs a))\<rparr>"
      by (simp add: h apply_all_heap)
    then show ?thesis ..
  qed
  have 2: "userInfo (heap s' a) = userInfo (heap s a)" for a
    by (simp add: h apply_all_heap)
  have 3: "heap s' a = heap s a"
    if "sub_id (heap s a) \<notin> set (map res_id (filter res_success ?rs))" for a
    using that by (simp add: h apply_all_heap hits_empty_unlisted)
  have 4: "heap s' a = heap s a" if "a \<notin> set (subscriptions s)" for a
    using that by (simp add: h apply_all_heap hits_empty_outside)
  have 5: "nodeCount (heap s' a)
             = res_nodeCount (last (filter (\<lambda>r. res_success r \<and> res_id r = sub_id (heap s a)) ?rs))"
    if d: "distinct (map (\<lambda>a. sub_id (heap s a)) (subscriptions s))"
      and a: "a \<in> set (subscriptions s)"
      and l: "sub_id (heap s a) \<in> set (map res_id (filter res_success ?rs))" for a
  proof -
    from l have "filter (\<lambda>r. res_success r \<and> res_id r = sub_id (heap s a)) ?rs \<noteq> []"
      by (auto simp: filter_empty_conv)
    then show ?thesis by (simp add: h apply_all_heap hits_distinct [OF d a])
  qed
  show ?thesis
  proof (intro conjI allI impI ballI)
    fix a show "\<exists>c. heap s' a = (heap s a)\<lparr>nodeCount := c\<rparr>" by (rule 1)
  next
    fix a show "userInfo (heap s' a) = userInfo (heap s a)" by (rule 2)
  next
    fix a assume "sub_id (heap s a) \<notin> set (map res_id (filter res_success ?rs))"
    then show "heap s' a = heap s a" by (rule 3)
  next
    fix a assume "a \<notin> set (subscriptions s)"
    then show "heap s' a = heap s a" by (rule 4)
  next
    fix a
    assume "distinct (map (\<lambda>a. sub_id (heap s a)) (subscriptions s))" "a \<in> set (subscriptions s)"
      "sub_id (heap s a) \<in> set (map res_id (filter res_success ?rs))"
    then show "nodeCount (heap s' a)
             = res_nodeCount (last (filter (\<lambda>r. res_success r \<and> res_id r = sub_id (heap s a)) ?rs))"
      by (rule 5)
  next
    show "subscriptions s' = subscriptions s" by (rule c)
  next
    show "fetched (trace s') = fetched (trace s)" by (rule f)
  qed
qed

lemma demo_distinct: "distinct (map (\<lambda>a. sub_id (heap demo_state a)) (subscriptions demo_state))"
  by (simp add: demo_state_def demo_sub_def)

theorem C3_witness:
  "success \<lparr>success = True, results = demo_results\<rparr>
   \<and> distinct (map (\<lambda>a. sub_id (heap demo_state a)) (subscriptions demo_state))
   \<and> nodeCount (heap (snd (autoUpdateTick_resume 1
        (BatchReturned \<lparr>success = True, results = demo_results\<rparr>) demo_state)) 0) = Some 42
   \<and> heap (snd (autoUpdateTick_resume 1
        (BatchReturned \<lparr>success = True, results = demo_results\<rparr>) demo_state)) 2 = heap demo_state 2
   \<and> userInfo (heap (snd (autoUpdateTick_resume 1
        (BatchReturned \<lparr>success = True, results = demo_results\<rparr>) demo_state)) 0) = None
   \<and> fetched (trace (snd (autoUpdateTick_resume 1
        (BatchReturned \<lparr>success = True, results = demo_results\<rparr>) demo_state))) = []"
proof -
  let ?res = "\<lparr>success = True, results = demo_results\<rparr>"
  let ?s' = "snd (autoUpdateTick_resume 1 (BatchReturned ?res) demo_state)"
  have s: "success ?res" by simp
  have rs: "results ?res = demo_results" by simp
  note t = C3_partial_success [OF s disjI1 [OF refl],
             where n = 1 and s = demo_state, unfolded rs]
  note t_user = t [THEN conjunct2, THEN conjunct1, rule_format]
  note t_unlisted = t [THEN conjunct2, THEN conjunct2, THEN conjunct1, rule_format]
  note t_written = t [THEN conjunct2, THEN conjunct2, THEN conjunct2, THEN conjunct2,
                      THEN conjunct1, rule_format]
  note t_fetched = t [THEN conjunct2, THEN conjunct2, THEN conjunct2, THEN conjunct2,
                      THEN conjunct2, THEN conjunct2]
  have i0: "sub_id (heap demo_state 0) = ''a''" and i2: "sub_id (heap demo_state 2) = ''b''"
    and m0: "0 \<in> set (subscriptions demo_state)"
    and u0: "userInfo (heap demo_state 0) = None" and tr: "fetched (trace demo_state) = []"
    by (simp_all add: demo_state_def demo_sub_def)
  have ok: "set (map res_id (filter res_success demo_results)) = {''a''}"
    by (simp add: demo_results_def)
  have l: "res_nodeCount (last (filter (\<lambda>r. res_success r \<and> res_id r = ''a'') demo_results)) = Some 42"
    by (simp add: demo_results_def)
  have "sub_id (heap demo_state 2) \<notin> set (map res_id (filter res_success demo_results))"
    unfolding i2 ok by simp
  then have a: "heap ?s' 2 = heap demo_state 2" by (rule t_unlisted)
  have "sub_id (heap demo_state 0) \<in> set (map res_id (filter res_success demo_results))"
    unfolding i0 ok by simp
  with demo_distinct m0 have "nodeCount (heap ?s' 0)
      = res_nodeCount (last (filter (\<lambda>r. res_success r \<and> res_id r = sub_id (heap demo_state 0)) demo_results))"
    by (rule t_written)
  then have b: "nodeCount (heap ?s' 0) = Some 42" by (simp only: i0 l)
  have c: "userInfo (heap ?s' 0) = None" by (simp only: t_user u0)
  have d: "fetched (trace ?s') = []" by (simp only: t_fetched tr)
  from s demo_distinct a b c d show ?thesis by (intro conjI)
qed

text \<open>
  C10. When the results of a batch call are applied, a result whose identifier no
  record of the collection carries at that moment is skipped: the state is the one
  reached without that result, whatever comes before and after it in the list, and the
  collection is the same list of objects as before. On the global tick and in bulk
  import the store and the collection end as if the result had not been sent.
\<close>

theorem C10_unmatched_result_skipped:
  assumes "find_sub s (res_id r) = None"
  shows "applyUpdateResult r s = s
       \<and> applyUpdateResults (rs1 @ r # rs2) s = applyUpdateResults (rs1 @ rs2) s
       \<and> subscriptions (applyUpdateResults (rs1 @ r # rs2) s) = subscriptions s
       \<and> heap (snd (autoUpdateTick_resume n (BatchReturned \<lparr>success = True, results = rs1 @ r # rs2\<rparr>) s))
           = heap (snd (autoUpdateTick_resume n (BatchReturned \<lparr>success = True, results = rs1 @ rs2\<rparr>) s))
       \<and> subscriptions (snd (autoUpdateTick_resume n
             (BatchReturned \<lparr>success = True, results = rs1 @ r # rs2\<rparr>) s)) = subscriptions s
       \<and> heap (snd (addSubscriptionsFromBulk_resume net subsToUpdate
             (BatchReturned \<lparr>success = True, results = rs1 @ r # rs2\<rparr>) s))
           = heap (snd (addSubscriptionsFromBulk_resume net subsToUpdate
             (BatchReturned \<lparr>success = True, results = rs1 @ rs2\<rparr>) s))
       \<and> subscriptions (snd (addSubscriptionsFromBulk_resume net subsToUpdate
             (BatchReturned \<lparr>success = True, results = rs1 @ r # rs2\<rparr>) s)) = subscriptions s"
proof -
  have one: "applyUpdateResult r s = s" using assms by (rule apply_one_unmatched)
  have all: "applyUpdateResults (rs1 @ r # rs2) s = applyUpdateResults (rs1 @ rs2) s"
    using assms by (rule apply_all_drop_unmatched)
  have sel: "success \<lparr>success = True, results = rs\<rparr>" "results \<lparr>success = True, results = rs\<rparr> = rs"
    for rs :: "update_result list"
    by simp_all
  have tick: "heap (snd (autoUpdateTick_resume n (BatchReturned \<lparr>success = True, results = rs\<rparr>) s))
                = heap (applyUpdateResults rs s)"
    "subscriptions (snd (autoUpdateTick_resume n (BatchReturned \<lparr>success = True, results = rs\<rparr>) s))
                = subscriptions s" for rs
    by (simp_all add: tick_resume_success)
  have bulk: "heap (snd (addSubscriptionsFromBulk_resume net subsToUpdate
                      (BatchReturned \<lparr>success = True, results = rs\<rparr>) s))
                = heap (applyUpdateResults rs s)"
    "subscriptions (snd (addSubscriptionsFromBulk_resume net subsToUpdate
                      (BatchReturned \<lparr>success = True, results = rs\<rparr>) s))
                = subscriptions s" for rs
    by (simp_all add: bulk_resume_success)
  show ?thesis
    by (simp only: one all tick bulk apply_all_subs simp_thms)
qed

theorem C10_witness:
  "find_sub demo_state ''gone'' = None
   \<and> applyUpdateResults
        (demo_results @ [\<lparr>res_id = ''gone'', res_success = True, res_nodeCount = Some 9\<rparr>]) demo_state
      = applyUpdateResults demo_results demo_state
   \<and> subscriptions (snd (autoUpdateTick_resume 1 (BatchReturned \<lparr>success = True,
        results = demo_results @ [\<lparr>res_id = ''gone'', res_success = True, res_nodeCount = Some 9\<rparr>]\<rparr>)
        demo_state)) = [0, 2]"
proof -
  let ?r = "\<lparr>res_id = ''gone'', res_success = True, res_nodeCount = Some 9\<rparr>"
  have g: "find_sub demo_state (res_id ?r) = None"
    by (simp add: find_sub_def demo_state_def demo_sub_def)
  have c: "subscriptions demo_state = [0, 2]" by (simp add: demo_state_def)
  note t = C10_unmatched_result_skipped [OF g, where ?rs1.0 = demo_results and ?rs2.0 = "[]" and n = 1]
  from t have a: "applyUpdateResults (demo_results @ [?r]) demo_state
                   = applyUpdateResults (demo_results @ []) demo_state"
    by (rule conjunct2 [THEN conjunct1])
  from t have b: "subscriptions (snd (autoUpdateTick_resume 1
        (BatchReturned \<lparr>success = True, results = demo_results @ [?r]\<rparr>) demo_state))
       = subscriptions demo_state"
    by (rule conjunct2 [THEN conjunct2, THEN conjunct2, THEN conjunct2, THEN conjunct1])
  have g': "find_sub demo_state ''gone'' = None" using g by simp
  from a have a': "applyUpdateResults (demo_results @ [?r]) demo_state
                   = applyUpdateResults demo_results demo_state" by simp
  from g' a' b c show ?thesis by simp
qed

section \<open>Initialisation: proofs\<close>

lemma alloc_Cons:
  "alloc (r # rs) s
     = (nextAddr s # fst (alloc rs (s\<lparr>heap := (heap s)(nextAddr s := r), nextAddr := Suc (nextAddr s)\<rparr>)),
        snd (alloc rs (s\<lparr>heap := (heap s)(nextAddr s := r), nextAddr := Suc (nextAddr s)\<rparr>)))"
  by (simp split: prod.splits)

lemma alloc_fst: "fst (alloc rs s) = [nextAddr s ..< nextAddr s + length rs]"
proof (induction rs arbitrary: s)
  case Nil
  show ?case by simp
next
  case (Cons r rs)
  have "[nextAddr s ..< nextAddr s + length (r # rs)]
          = nextAddr s # [Suc (nextAddr s) ..< Suc (nextAddr s) + length rs]"
    using upt_conv_Cons [of "nextAddr s" "nextAddr s + length (r # rs)"] by simp
  moreover have "nextAddr (s\<lparr>heap := (heap s)(nextAddr s := r), nextAddr := Suc (nextAddr s)\<rparr>)
                  = Suc (nextAddr s)"
    by simp
  ultimately show ?case
    by (simp only: alloc_Cons fst_conv Cons.IH)
qed

lemma alloc_heap:
  "heap (snd (alloc rs s)) a
     = (if nextAddr s \<le> a \<and> a < nextAddr s + length rs then rs ! (a - nextAddr s) else heap s a)"
proof (induction rs arbitrary: s)
  case Nil
  show ?case by auto
next
  case (Cons r rs)
  show ?case
    by (simp only: alloc_Cons snd_conv Cons.IH) (auto simp: nth_Cons' Suc_diff_le)
qed

lemma alloc_frame:
  "trace (snd (alloc rs s)) = trace s \<and> timers (snd (alloc rs s)) = timers s
   \<and> subscriptions (snd (alloc rs s)) = subscriptions s
   \<and> subsCurrentPage (snd (alloc rs s)) = subsCurrentPage s
   \<and> updateTimer (snd (alloc rs s)) = updateTimer s"
proof (induction rs arbitrary: s)
  case Nil
  show ?case by simp
next
  case (Cons r rs)
  show ?case by (simp only: alloc_Cons snd_conv Cons.IH) simp
qed

lemma initRecords_length: "length (initRecords uuid k rs) = length rs"
  by (induction rs arbitrary: k) simp_all

lemma initRecords_nth:
  "i < length rs \<Longrightarrow>
   initRecords uuid k rs ! i
     = normalize (rs ! i) (chosen_id uuid (k + length (filter lacks_id (take i rs))) (rs ! i))"
proof (induction rs arbitrary: k i)
  case Nil
  then show ?case by simp
next
  case (Cons r rs)
  show ?case
  proof (cases i)
    case 0
    then show ?thesis by simp
  next
    case (Suc j)
    with Cons.prems have "j < length rs" by simp
    from Cons.IH [OF this] Suc show ?thesis by simp
  qed
qed

lemma lacks_id_iff: "lacks_id r \<longleftrightarrow> r_id r = None \<or> r_id r = Some []"
  by (simp add: lacks_id_def split: option.splits)

lemma lacks_id_fun: "lacks_id = (\<lambda>r. r_id r = None \<or> r_id r = Some [])"
  by (rule ext) (rule lacks_id_iff)

lemma filter_take_less:
  assumes "i < j" "j \<le> length xs" "P (xs ! i)"
  shows "length (filter P (take i xs)) < length (filter P (take j xs))"
proof -
  have i: "i < length (take j xs)" using assms by simp
  have "take j xs = take i (take j xs) @ drop i (take j xs)"
    by (rule append_take_drop_id [symmetric])
  also have "take i (take j xs) = take i xs" using assms by (simp add: min_def)
  also have "drop i (take j xs) = (take j xs) ! i # drop (Suc i) (take j xs)"
    using i by (rule Cons_nth_drop_Suc [symmetric])
  also have "(take j xs) ! i = xs ! i" using assms by simp
  finally have "take j xs = take i xs @ xs ! i # drop (Suc i) (take j xs)" .
  then have "filter P (take j xs)
               = filter P (take i xs) @ xs ! i # filter P (drop (Suc i) (take j xs))"
    using assms(3) by (metis filter.simps(2) filter_append)
  then show ?thesis by simp
qed

text \<open>
  C5. \<open>initializeSubscriptions\<close> makes the collection a list of new, pairwise
  different objects, one per seed and in the seeds' order. The object for a seed has
  the seed's fields, \<open>isUpdating = false\<close>, and for every optional field the seed
  lacks its default: \<open>enabled = true\<close>, \<open>nodeCount = 0\<close>, \<open>userInfo = null\<close>,
  \<open>exclude = ''\<close>, \<open>updateInterval = null\<close>. A seed whose identifier is present and
  not empty keeps it; a seed whose identifier is missing or empty gets the value of a
  call of \<open>crypto.randomUUID\<close> of its own: the \<open>k\<close>-th such seed gets the \<open>k\<close>-th
  value, so two such seeds never share a call. No event is emitted (so neither a fetch
  nor a batch call is made), no timer is touched and no object that existed before is
  written.
\<close>

theorem C5_initialize:
  assumes "raws = (case subsData of None \<Rightarrow> [] | Some l \<Rightarrow> l)"
    and "s' = initializeSubscriptions uuid subsData s"
  shows "length (subscriptions s') = length raws
       \<and> distinct (subscriptions s')
       \<and> (\<forall>i < length raws.
            heap s' (subscriptions s' ! i)
              = normalize (raws ! i)
                  (case r_id (raws ! i) of
                     None \<Rightarrow>
                       uuid (length (filter (\<lambda>r. r_id r = None \<or> r_id r = Some []) (take i raws)))
                   | Some j \<Rightarrow>
                       if j = []
                       then uuid (length (filter (\<lambda>r. r_id r = None \<or> r_id r = Some []) (take i raws)))
                       else j))
       \<and> (\<forall>i j. i < j \<and> j < length raws
               \<and> (r_id (raws ! i) = None \<or> r_id (raws ! i) = Some [])
               \<and> (r_id (raws ! j) = None \<or> r_id (raws ! j) = Some [])
             \<longrightarrow> (\<exists>k l. k < l \<and> sub_id (heap s' (subscriptions s' ! i)) = uuid k
                            \<and> sub_id (heap s' (subscriptions s' ! j)) = uuid l))
       \<and> (\<forall>r i. sub_id (normalize r i) = i \<and> name (normalize r i) = r_name r
              \<and> url (normalize r i) = r_url r \<and> \<not> isUpdating (normalize r i)
              \<and> userInfo (normalize r i) = r_userInfo r
              \<and> updateTimers (normalize r i) = r_updateTimers r
              \<and> (r_enabled r = None \<longrightarrow> enabled (normalize r i))
              \<and> (\<forall>b. r_enabled r = Some b \<longrightarrow> enabled (normalize r i) = b)
              \<and> (r_nodeCount r = None \<longrightarrow> nodeCount (normalize r i) = Some 0)
              \<and> (\<forall>c. r_nodeCount r = Some c \<longrightarrow> nodeCount (normalize r i) = Some c)
              \<and> (r_exclude r = None \<longrightarrow> exclude (normalize r i) = [])
              \<and> (\<forall>e. r_exclude r = Some e \<longrightarrow> exclude (normalize r i) = e)
              \<and> (r_updateInterval r = None \<longrightarrow> updateInterval (normalize r i) = None)
              \<and> (r_updateInterval r = Some 0 \<longrightarrow> updateInterval (normalize r i) = None)
              \<and> (\<forall>m. r_updateInterval r = Some m \<and> m \<noteq> 0 \<longrightarrow> updateInterval (normalize r i) = Some m))
       \<and> trace s' = trace s
       \<and> timers s' = timers s
       \<and> (\<forall>a < nextAddr s. heap s' a = heap s a)"
proof -
  let ?recs = "initRecords uuid 0 raws"
  let ?m = "\<lambda>r. r_id r = None \<or> r_id r = Some []"
  let ?k = "\<lambda>i. length (filter ?m (take i raws))"
  have s': "s' = (snd (alloc ?recs s))\<lparr>subscriptions := fst (alloc ?recs s)\<rparr>"
    by (simp add: assms initializeSubscriptions_def split: prod.splits)
  have subs: "subscriptions s' = [nextAddr s ..< nextAddr s + length raws]"
    by (simp add: s' alloc_fst initRecords_length)
  have hp: "heap s' a = (if nextAddr s \<le> a \<and> a < nextAddr s + length raws
                         then ?recs ! (a - nextAddr s) else heap s a)" for a
    by (simp add: s' alloc_heap initRecords_length)
  have 1: "length (subscriptions s') = length raws" by (simp add: subs)
  have 2: "distinct (subscriptions s')" by (simp add: subs)
  have 3: "heap s' (subscriptions s' ! i)
             = normalize (raws ! i)
                 (case r_id (raws ! i) of None \<Rightarrow> uuid (?k i)
                  | Some j \<Rightarrow> if j = [] then uuid (?k i) else j)"
    if "i < length raws" for i
    using that by (simp add: subs hp initRecords_nth chosen_id_def lacks_id_fun)
  have id: "sub_id (heap s' (subscriptions s' ! i)) = uuid (?k i)"
    if "i < length raws" "?m (raws ! i)" for i
    using 3 [OF that(1)] that(2) by (auto simp: normalize_def)
  have 4: "trace s' = trace s" "timers s' = timers s"
    using alloc_frame [of ?recs s] by (simp_all add: s')
  have 5: "heap s' a = heap s a" if "a < nextAddr s" for a
    using that by (simp add: hp)
  have 6: "\<exists>k l. k < l \<and> sub_id (heap s' (subscriptions s' ! i)) = uuid k
                  \<and> sub_id (heap s' (subscriptions s' ! j)) = uuid l"
    if "i < j \<and> j < length raws \<and> ?m (raws ! i) \<and> ?m (raws ! j)" for i j
  proof -
    from that have "?k i < ?k j" by (intro filter_take_less) simp_all
    moreover from that have "sub_id (heap s' (subscriptions s' ! i)) = uuid (?k i)"
      by (intro id) simp_all
    moreover from that have "sub_id (heap s' (subscriptions s' ! j)) = uuid (?k j)"
      by (intro id) simp_all
    ultimately show ?thesis by blast
  qed
  show ?thesis
  proof (intro conjI allI impI)
    show "length (subscriptions s') = length raws" by (rule 1)
    show "distinct (subscriptions s')" by (rule 2)
    show "trace s' = trace s" by (rule 4)
    show "timers s' = timers s" by (rule 4)
  next
    fix i assume "i < length raws"
    then show "heap s' (subscriptions s' ! i)
             = normalize (raws ! i)
                 (case r_id (raws ! i) of None \<Rightarrow> uuid (?k i)
                  | Some j \<Rightarrow> if j = [] then uuid (?k i) else j)"
      by (rule 3)
  next
    fix i j assume "i < j \<and> j < length raws \<and> ?m (raws ! i) \<and> ?m (raws ! j)"
    then show "\<exists>k l. k < l \<and> sub_id (heap s' (subscriptions s' ! i)) = uuid k
                  \<and> sub_id (heap s' (subscriptions s' ! j)) = uuid l"
      by (rule 6)
  next
    fix a assume "a < nextAddr s"
    then show "heap s' a = heap s a" by (rule 5)
  qed (simp_all add: normalize_def)
qed

theorem C5_witness:
  "length (subscriptions (initializeSubscriptions demo_uuid (Some demo_seeds) demo_state)) = 3
   \<and> heap (initializeSubscriptions demo_uuid (Some demo_seeds) demo_state)
        (subscriptions (initializeSubscriptions demo_uuid (Some demo_seeds) demo_state) ! 0)
      = \<lparr>sub_id = ''u'', name = ''A'', url = Some ''http://x'', enabled = True, nodeCount = Some 0,
         isUpdating = False, userInfo = None, exclude = [], updateInterval = None,
         updateTimers = None\<rparr>
   \<and> heap (initializeSubscriptions demo_uuid (Some demo_seeds) demo_state)
        (subscriptions (initializeSubscriptions demo_uuid (Some demo_seeds) demo_state) ! 1)
      = \<lparr>sub_id = ''k'', name = ''B'', url = Some ''http://y'', enabled = False, nodeCount = Some 3,
         isUpdating = False, userInfo = None, exclude = ''x'', updateInterval = None,
         updateTimers = None\<rparr>
   \<and> heap (initializeSubscriptions demo_uuid (Some demo_seeds) demo_state)
        (subscriptions (initializeSubscriptions demo_uuid (Some demo_seeds) demo_state) ! 2)
      = \<lparr>sub_id = ''uu'', name = ''C'', url = None, enabled = True, nodeCount = Some 0,
         isUpdating = False, userInfo = None, exclude = [], updateInterval = None,
         updateTimers = None\<rparr>
   \<and> (\<exists>k l. k < l
         \<and> sub_id (heap (initializeSubscriptions demo_uuid (Some demo_seeds) demo_state)
              (subscriptions (initializeSubscriptions demo_uuid (Some demo_seeds) demo_state) ! 0))
            = demo_uuid k
         \<and> sub_id (heap (initializeSubscriptions demo_uuid (Some demo_seeds) demo_state)
              (subscriptions (initializeSubscriptions demo_uuid (Some demo_seeds) demo_state) ! 2))
            = demo_uuid l)
   \<and> trace (initializeSubscriptions demo_uuid (Some demo_seeds) demo_state) = []"
proof -
  let ?s' = "initializeSubscriptions demo_uuid (Some demo_seeds) demo_state"
  have r: "demo_seeds = (case Some demo_seeds of None \<Rightarrow> [] | Some l \<Rightarrow> l)" by simp
  note t = C5_initialize [OF r refl, of demo_uuid demo_state]
  note t_len = t [THEN conjunct1]
  note t_nth = t [THEN conjunct2, THEN conjunct2, THEN conjunct1, rule_format]
  note t_own = t [THEN conjunct2, THEN conjunct2, THEN conjunct2, THEN conjunct1, rule_format]
  note t_trace = t [THEN conjunct2, THEN conjunct2, THEN conjunct2, THEN conjunct2, THEN conjunct2,
                    THEN conjunct1]
  have len: "length demo_seeds = 3" by (simp add: demo_seeds_def)
  have a: "length (subscriptions ?s') = 3" using t_len by (simp only: len)
  have "0 < length demo_seeds" by (simp add: len)
  from t_nth [OF this] have b: "heap ?s' (subscriptions ?s' ! 0)
      = \<lparr>sub_id = ''u'', name = ''A'', url = Some ''http://x'', enabled = True, nodeCount = Some 0,
         isUpdating = False, userInfo = None, exclude = [], updateInterval = None,
         updateTimers = None\<rparr>"
    by (simp add: demo_seeds_def normalize_def demo_uuid_def)
  have "1 < length demo_seeds" by (simp add: len)
  from t_nth [OF this] have c: "heap ?s' (subscriptions ?s' ! 1)
      = \<lparr>sub_id = ''k'', name = ''B'', url = Some ''http://y'', enabled = False, nodeCount = Some 3,
         isUpdating = False, userInfo = None, exclude = ''x'', updateInterval = None,
         updateTimers = None\<rparr>"
    by (simp add: demo_seeds_def normalize_def demo_uuid_def)
  have "2 < length demo_seeds" by (simp add: len)
  from t_nth [OF this] have d: "heap ?s' (subscriptions ?s' ! 2)
      = \<lparr>sub_id = ''uu'', name = ''C'', url = None, enabled = True, nodeCount = Some 0,
         isUpdating = False, userInfo = None, exclude = [], updateInterval = None,
         updateTimers = None\<rparr>"
    by (simp add: demo_seeds_def normalize_def demo_uuid_def)
  have "(0::nat) < 2 \<and> 2 < length demo_seeds
        \<and> (r_id (demo_seeds ! 0) = None \<or> r_id (demo_seeds ! 0) = Some [])
        \<and> (r_id (demo_seeds ! 2) = None \<or> r_id (demo_seeds ! 2) = Some [])"
    by (simp add: demo_seeds_def)
  from t_own [OF this] have e: "\<exists>k l. k < l
         \<and> sub_id (heap ?s' (subscriptions ?s' ! 0)) = demo_uuid k
         \<and> sub_id (heap ?s' (subscriptions ?s' ! 2)) = demo_uuid l" .
  have f: "trace ?s' = []" using t_trace by (simp add: demo_state_def)
  from a b c d e f show ?thesis by (intro conjI)
qed

lemma demo_initialized:
  "subscriptions (initializeSubscriptions demo_uuid (Some demo_seeds) demo_state) = [3, 4, 5]"
  "heap (initializeSubscriptions demo_uuid (Some demo_seeds) demo_state) 5
     = \<lparr>sub_id = ''uu'', name = ''C'', url = None, enabled = True, nodeCount = Some 0,
        isUpdating = False, userInfo = None, exclude = [], updateInterval = None,
        updateTimers = None\<rparr>"
  "sub_id (heap (initializeSubscriptions demo_uuid (Some demo_seeds) demo_state) 3) = ''u''"
  "sub_id (heap (initializeSubscriptions demo_uuid (Some demo_seeds) demo_state) 4) = ''k''"
proof -
  let ?recs = "initRecords demo_uuid 0 demo_seeds"
  let ?s' = "initializeSubscriptions demo_uuid (Some demo_seeds) demo_state"
  have s': "?s' = (snd (alloc ?recs demo_state))\<lparr>subscriptions := fst (alloc ?recs demo_state)\<rparr>"
    by (simp add: initializeSubscriptions_def split: prod.splits)
  have n: "nextAddr demo_state = 3" "length ?recs = 3"
    by (simp_all add: demo_state_def initRecords_length demo_seeds_def)
  show "subscriptions ?s' = [3, 4, 5]"
    by (simp add: s' alloc_fst n upt_rec)
  have h: "heap ?s' a = (if 3 \<le> a \<and> a < 6 then ?recs ! (a - 3) else heap demo_state a)" for a
    by (simp add: s' alloc_heap n)
  have r: "?recs = [normalize (demo_seeds ! 0) ''u'', normalize (demo_seeds ! 1) ''k'',
                    normalize (demo_seeds ! 2) ''uu'']"
    by (simp add: demo_seeds_def chosen_id_def lacks_id_def demo_uuid_def)
  show "heap ?s' 5 = \<lparr>sub_id = ''uu'', name = ''C'', url = None, enabled = True, nodeCount = Some 0,
        isUpdating = False, userInfo = None, exclude = [], updateInterval = None,
        updateTimers = None\<rparr>"
    unfolding h r by (simp add: normalize_def demo_seeds_def)
  show "sub_id (heap ?s' 3) = ''u''" unfolding h r by (simp add: normalize_def)
  show "sub_id (heap ?s' 4) = ''k''" unfolding h r by (simp add: normalize_def)
qed

text \<open>
  C4, on a record without url. \<open>initializeSubscriptions\<close> gives \<open>url\<close> no default:
  the third seed above becomes a record with identifier \<open>uu\<close>, enabled, and no url.
  For that record \<open>handleUpdateNodeCount\<close> evaluates \<open>subToUpdate.url.startsWith\<close>
  before its \<open>try\<close>: the call is rejected with the exception, where a record whose
  url is not an HTTP URL should be left alone with no exception.
\<close>

theorem C4_refresh_rejects_without_url:
  "find_sub (initializeSubscriptions demo_uuid (Some demo_seeds) demo_state) ''uu'' = Some 5
   \<and> url (heap (initializeSubscriptions demo_uuid (Some demo_seeds) demo_state) 5) = None
   \<and> handleUpdateNodeCount_begin ''uu'' False
        (initializeSubscriptions demo_uuid (Some demo_seeds) demo_state)
      = (Threw, initializeSubscriptions demo_uuid (Some demo_seeds) demo_state)
   \<and> handleUpdateNodeCount (\<lambda>_. Rejected) ''uu'' False
        (initializeSubscriptions demo_uuid (Some demo_seeds) demo_state)
      = (Abrupt, initializeSubscriptions demo_uuid (Some demo_seeds) demo_state)"
proof -
  let ?s' = "initializeSubscriptions demo_uuid (Some demo_seeds) demo_state"
  have f: "find_sub ?s' ''uu'' = Some 5"
    unfolding find_sub_def demo_initialized(1)
    by (simp add: demo_initialized)
  have u: "url (heap ?s' 5) = None" by (simp add: demo_initialized(2))
  from f u begin_threw [OF f u] refresh_threw [OF f u] show ?thesis by simp
qed

section \<open>Replacing and removing records: concrete runs\<close>

lemma demo_heap:
  "heap demo_state 0 = demo_sub"
  "heap demo_state 1 = demo_sub\<lparr>url := Some ''http://new''\<rparr>"
  "heap demo_state 2 = demo_sub\<lparr>sub_id := ''b'', url := Some ''manual''\<rparr>"
  by (simp_all add: demo_state_def)

lemma demo_update:
  "updateSubscription 1 demo_state
     = (Some 0,
        demo_state\<lparr>heap := (heap demo_state)
                      (1 := demo_sub\<lparr>url := Some ''http://new'', nodeCount := Some 0\<rparr>,
                       0 := demo_sub\<lparr>isUpdating := True\<rparr>),
                    subscriptions := [1, 2],
                    trace := [FetchNodeCount ''http://old'', MarkDirty]\<rparr>)"
  by (simp add: updateSubscription_def handleUpdateNodeCount_begin_def find_sub_def in_flight_def
        modify_def emit_def markDirty_def is_http_def Let_def demo_state_def demo_sub_def)

text \<open>
  C6, on the collection above: \<open>updateSubscription\<close> is given object 1, the copy of
  record \<open>a\<close> with the URL changed from \<open>http://old\<close> to \<open>http://new\<close>. The
  record is replaced in place, the dirty signal is raised and the stored
  \<open>nodeCount\<close> is 0. But \<open>handleUpdateNodeCount\<close> runs before the replacement:
  it finds the old object, fetches the old URL, and when the answer (7 nodes) arrives
  it is written to the old object, which is no longer in the collection. The record in
  the collection keeps \<open>nodeCount = 0\<close>.
\<close>

theorem C6_update_refreshes_replaced_object:
  "fst (updateSubscription 1 demo_state) = Some 0
   \<and> subscriptions (snd (updateSubscription 1 demo_state)) = [1, 2]
   \<and> url (heap (snd (updateSubscription 1 demo_state)) 1) = Some ''http://new''
   \<and> nodeCount (heap (snd (updateSubscription 1 demo_state)) 1) = Some 0
   \<and> trace (snd (updateSubscription 1 demo_state)) = [FetchNodeCount ''http://old'', MarkDirty]
   \<and> nodeCount (heap (snd (handleUpdateNodeCount_resume 0 False demo_fetched
                              (snd (updateSubscription 1 demo_state)))) 1) = Some 0
   \<and> nodeCount (heap (snd (handleUpdateNodeCount_resume 0 False demo_fetched
                              (snd (updateSubscription 1 demo_state)))) 0) = Some 7
   \<and> subscriptions (snd (handleUpdateNodeCount_resume 0 False demo_fetched
                              (snd (updateSubscription 1 demo_state)))) = [1, 2]"
  unfolding demo_update
  by (simp add: handleUpdateNodeCount_resume_def try_finally_def try_catch_def
        modify_def Let_def demo_fetched_def markDirty_def showToast_def emit_def)

lemma demo_armed:
  "setupIndividualUpdateTimers demo_state
     = (Normal,
        demo_state\<lparr>heap := (heap demo_state)(0 := demo_sub\<lparr>updateTimers := Some [1]\<rparr>),
                  timers := (\<lambda>_. None)(1 \<mapsto> \<lparr>period = 300000, action = IndividualUpdate 0\<rparr>),
                  nextHandle := 2\<rparr>)"
  by (simp add: setupIndividualUpdateTimers_def clearIndividualUpdateTimers_def clearTimersOf_def
        armTimerOf_def eligible_def url_throws_def has_http_def setInterval_def timer_delay_def
        modify_def is_http_def Let_def demo_state_def demo_sub_def)

lemma fold_idle: "(\<And>a. a \<in> set xs \<Longrightarrow> f a s = s) \<Longrightarrow> fold f xs s = s"
  by (induction xs) simp_all

lemma forEach_idle:
  "(\<And>a. a \<in> set xs \<Longrightarrow> f a s = (Normal, s)) \<Longrightarrow> forEach f xs s = (Normal, s)"
  by (induction xs) simp_all

lemma setup_idle:
  assumes "\<And>a. a \<in> set (subscriptions s) \<Longrightarrow>
             updateTimers (heap s a) = None \<and> \<not> eligible (heap s a) \<and> \<not> url_throws (heap s a)"
  shows "setupIndividualUpdateTimers s = (Normal, s)" and "clearIndividualUpdateTimers s = s"
proof -
  have c: "clearIndividualUpdateTimers s = s"
    unfolding clearIndividualUpdateTimers_def
    by (rule fold_idle) (simp add: clearTimersOf_def assms)
  show "clearIndividualUpdateTimers s = s" by (rule c)
  have "forEach armTimerOf (subscriptions s) s = (Normal, s)"
    by (rule forEach_idle) (simp add: armTimerOf_def assms)
  then show "setupIndividualUpdateTimers s = (Normal, s)"
    by (simp add: setupIndividualUpdateTimers_def c)
qed

lemma delete_frame:
  "heap (deleteSubscription i s) = heap s" "timers (deleteSubscription i s) = timers s"
  "updateTimer (deleteSubscription i s) = updateTimer s"
  "subscriptions (deleteSubscription i s) = filter (\<lambda>a. sub_id (heap s a) \<noteq> i) (subscriptions s)"
  by (simp_all add: deleteSubscription_def Let_def markDirty_def emit_def)

lemma deleteAll_frame:
  "heap (deleteAllSubscriptions s) = heap s" "timers (deleteAllSubscriptions s) = timers s"
  "subscriptions (deleteAllSubscriptions s) = []"
  by (simp_all add: deleteAllSubscriptions_def markDirty_def emit_def)

lemma demo_after_delete:
  "subscriptions (deleteSubscription ''a'' (snd (setupIndividualUpdateTimers demo_state))) = [2]"
  "updateTimers (heap (deleteSubscription ''a'' (snd (setupIndividualUpdateTimers demo_state))) 2) = None"
  "\<not> eligible (heap (deleteSubscription ''a'' (snd (setupIndividualUpdateTimers demo_state))) 2)"
  "\<not> url_throws (heap (deleteSubscription ''a'' (snd (setupIndividualUpdateTimers demo_state))) 2)"
  "updateTimer (deleteSubscription ''a'' (snd (setupIndividualUpdateTimers demo_state))) = None"
  "timers (deleteSubscription ''a'' (snd (setupIndividualUpdateTimers demo_state))) 1
     = Some \<lparr>period = 300000, action = IndividualUpdate 0\<rparr>"
  unfolding delete_frame demo_armed snd_conv
  by (simp_all add: demo_state_def demo_sub_def eligible_def url_throws_def has_http_def is_http_def)

text \<open>
  C8, on the collection above: after the per-item timers are armed, record \<open>a\<close>
  (object 0) owns timer 1. \<open>deleteSubscription\<close> and \<open>deleteAllSubscriptions\<close>
  drop the record and leave the timer live; from then on neither re-arming nor the
  teardown at unmount reaches it, since both walk the collection only.
\<close>

theorem C8_timer_outlives_record:
  "fst (setupIndividualUpdateTimers demo_state) = Normal
   \<and> timers (snd (setupIndividualUpdateTimers demo_state)) 1
     = Some \<lparr>period = 300000, action = IndividualUpdate 0\<rparr>
   \<and> subscriptions (deleteSubscription ''a'' (snd (setupIndividualUpdateTimers demo_state))) = [2]
   \<and> timers (deleteSubscription ''a'' (snd (setupIndividualUpdateTimers demo_state))) 1
       = Some \<lparr>period = 300000, action = IndividualUpdate 0\<rparr>
   \<and> subscriptions (deleteAllSubscriptions (snd (setupIndividualUpdateTimers demo_state))) = []
   \<and> timers (deleteAllSubscriptions (snd (setupIndividualUpdateTimers demo_state))) 1
       = Some \<lparr>period = 300000, action = IndividualUpdate 0\<rparr>
   \<and> timers (snd (setupIndividualUpdateTimers
               (deleteSubscription ''a'' (snd (setupIndividualUpdateTimers demo_state))))) 1
       = Some \<lparr>period = 300000, action = IndividualUpdate 0\<rparr>
   \<and> timers (onUnmounted (deleteSubscription ''a'' (snd (setupIndividualUpdateTimers demo_state)))) 1
       = Some \<lparr>period = 300000, action = IndividualUpdate 0\<rparr>"
proof -
  let ?armed = "snd (setupIndividualUpdateTimers demo_state)"
  let ?s = "deleteSubscription ''a'' ?armed"
  let ?t = "Some \<lparr>period = 300000, action = IndividualUpdate 0\<rparr>"
  have n: "fst (setupIndividualUpdateTimers demo_state) = Normal" unfolding demo_armed by simp
  have a: "timers ?armed 1 = ?t" unfolding demo_armed by simp
  have idle: "updateTimers (heap ?s x) = None \<and> \<not> eligible (heap ?s x) \<and> \<not> url_throws (heap ?s x)"
    if "x \<in> set (subscriptions ?s)" for x
    using that demo_after_delete(2,3,4) unfolding demo_after_delete(1) by simp
  have r: "setupIndividualUpdateTimers ?s = (Normal, ?s)" by (rule setup_idle(1) [OF idle])
  have u: "onUnmounted ?s = ?s"
    by (simp add: onUnmounted_def demo_after_delete(5) setup_idle(2) [OF idle])
  show ?thesis
    unfolding r u snd_conv demo_after_delete(1,6) deleteAll_frame a n
    by simp
qed

section \<open>Degradation after a failed batch call: proofs\<close>

lemma emit_frame [simp]:
  "heap (emit e s) = heap s" "subscriptions (emit e s) = subscriptions s"
  "trace (emit e s) = trace s @ [e]" "timers (emit e s) = timers s"
  by (simp_all add: emit_def)

lemma modify_frame [simp]:
  "subscriptions (modify a f s) = subscriptions s" "trace (modify a f s) = trace s"
  "timers (modify a f s) = timers s"
  "heap (modify a f s) x = (if x = a then f (heap s a) else heap s x)"
  by (simp_all add: modify_def)

lemma begin_frame:
  "subscriptions (snd (handleUpdateNodeCount_begin i b s)) = subscriptions s"
  "sub_id (heap (snd (handleUpdateNodeCount_begin i b s)) x) = sub_id (heap s x)"
  "url (heap (snd (handleUpdateNodeCount_begin i b s)) x) = url (heap s x)"
  "name (heap (snd (handleUpdateNodeCount_begin i b s)) x) = name (heap s x)"
  by (simp_all add: handleUpdateNodeCount_begin_def Let_def split: option.splits)

lemma resume_frame:
  "subscriptions (snd (handleUpdateNodeCount_resume a b out s)) = subscriptions s"
  "sub_id (heap (snd (handleUpdateNodeCount_resume a b out s)) x) = sub_id (heap s x)"
  "url (heap (snd (handleUpdateNodeCount_resume a b out s)) x) = url (heap s x)"
  "name (heap (snd (handleUpdateNodeCount_resume a b out s)) x) = name (heap s x)"
  "fetched (trace (snd (handleUpdateNodeCount_resume a b out s))) = fetched (trace s)"
  by (simp_all add: handleUpdateNodeCount_resume_def try_finally_def try_catch_def Let_def
        markDirty_def showToast_def fetched_append
        split: fetch_outcome.splits option.splits)

lemma resume_trace:
  "trace (snd (handleUpdateNodeCount_resume a False out s))
     = trace s @ reply_events (name (heap s a)) out"
  by (simp add: handleUpdateNodeCount_resume_def try_finally_def try_catch_def Let_def
        markDirty_def showToast_def reply_events_def
        split: fetch_outcome.splits option.splits)

lemma refresh_frame:
  "subscriptions (snd (handleUpdateNodeCount net i b s)) = subscriptions s"
  "sub_id (heap (snd (handleUpdateNodeCount net i b s)) x) = sub_id (heap s x)"
  "url (heap (snd (handleUpdateNodeCount net i b s)) x) = url (heap s x)"
  "name (heap (snd (handleUpdateNodeCount net i b s)) x) = name (heap s x)"
proof -
  obtain p s1 where b: "handleUpdateNodeCount_begin i b s = (p, s1)"
    by (cases "handleUpdateNodeCount_begin i b s")
  have f: "subscriptions s1 = subscriptions s" "sub_id (heap s1 x) = sub_id (heap s x)"
    "url (heap s1 x) = url (heap s x)" "name (heap s1 x) = name (heap s x)"
    using begin_frame(1) [of i b s] begin_frame(2,3,4) [of i b s x] by (simp_all add: b)
  show "subscriptions (snd (handleUpdateNodeCount net i b s)) = subscriptions s"
    by (cases p) (simp_all add: handleUpdateNodeCount_def b f resume_frame)
  show "sub_id (heap (snd (handleUpdateNodeCount net i b s)) x) = sub_id (heap s x)"
    by (cases p) (simp_all add: handleUpdateNodeCount_def b f resume_frame)
  show "url (heap (snd (handleUpdateNodeCount net i b s)) x) = url (heap s x)"
    by (cases p) (simp_all add: handleUpdateNodeCount_def b f resume_frame)
  show "name (heap (snd (handleUpdateNodeCount net i b s)) x) = name (heap s x)"
    by (cases p) (simp_all add: handleUpdateNodeCount_def b f resume_frame)
qed

text \<open>A refresh of a record that has an HTTP URL: its outcome, history and flag.\<close>

lemma refresh_issued:
  assumes "find_sub s i = Some a" "url (heap s a) = Some u" "is_http u"
  shows "fst (handleUpdateNodeCount net i False s) = Normal"
    and "trace (snd (handleUpdateNodeCount net i False s))
           = trace s @ [FetchNodeCount u]
             @ reply_events (name (heap s a)) (net (trace s @ [FetchNodeCount u]))"
    and "\<not> isUpdating (heap (snd (handleUpdateNodeCount net i False s)) a)"
  using assms
  by (simp_all add: handleUpdateNodeCount_def begin_issued resume_normal resume_trace
        resume_not_updating)

lemma refresh_keeps_idle:
  "\<not> isUpdating (heap s x) \<Longrightarrow> find_sub s i = Some a \<Longrightarrow> url (heap s a) = Some u \<Longrightarrow> is_http u
   \<Longrightarrow> \<not> isUpdating (heap (snd (handleUpdateNodeCount net i False s)) x)"
  by (simp add: handleUpdateNodeCount_def begin_issued handleUpdateNodeCount_resume_def
        try_finally_def try_catch_def Let_def markDirty_def showToast_def
        split: fetch_outcome.splits option.splits)

lemma fetched_reply [simp]: "fetched (reply_events n out) = []"
  by (simp add: reply_events_def split: fetch_outcome.splits option.splits)

lemma fetched_one_by_one: "fetched (one_by_one net l tr) = fetched tr @ map fst l"
  by (induction net l tr rule: one_by_one.induct) (simp_all add: fetched_append)

lemma has_http_url: "has_http r \<Longrightarrow> url r = Some (url_of r) \<and> is_http (url_of r)"
  by (simp add: has_http_def url_of_def split: option.splits)

text \<open>
  The loop over records of a collection with unique identifiers, each with an HTTP URL:
  every call finds the record it was made for, so the loop runs to its end.
\<close>

lemma degrade_sequential:
  assumes "distinct (map (\<lambda>a. sub_id (heap s a)) (subscriptions s))"
    and "set as \<subseteq> set (subscriptions s)"
    and "\<And>a. a \<in> set as \<Longrightarrow> has_http (heap s a)"
  shows "fst (degradeLoop net as s) = Normal
       \<and> trace (snd (degradeLoop net as s))
           = one_by_one net (map (\<lambda>a. (url_of (heap s a), name (heap s a))) as) (trace s)
       \<and> (\<forall>a \<in> set as. \<not> isUpdating (heap (snd (degradeLoop net as s)) a))
       \<and> subscriptions (snd (degradeLoop net as s)) = subscriptions s"
  using assms
proof (induction as arbitrary: s)
  case Nil
  show ?case by simp
next
  case (Cons a as)
  let ?r = "handleUpdateNodeCount net (sub_id (heap s a)) False s"
  let ?s1 = "snd ?r"
  have mem: "a \<in> set (subscriptions s)" using Cons.prems(2) by simp
  have fnd: "find_sub s (sub_id (heap s a)) = Some a"
    by (rule find_sub_distinct [OF Cons.prems(1) mem])
  have "has_http (heap s a)" using Cons.prems(3) by simp
  then have u: "url (heap s a) = Some (url_of (heap s a))" and h: "is_http (url_of (heap s a))"
    by (simp_all add: has_http_url)
  note ri = refresh_issued [OF fnd u h, of net]
  obtain c t where ct: "?r = (c, t)" by (cases ?r)
  with ri(1) have "c = Normal" by simp
  with ct have step: "degradeLoop net (a # as) s = degradeLoop net as ?s1" by simp
  have d1: "distinct (map (\<lambda>a. sub_id (heap ?s1 a)) (subscriptions ?s1))"
    using Cons.prems(1) by (simp add: refresh_frame)
  have m1: "set as \<subseteq> set (subscriptions ?s1)"
    using Cons.prems(2) by (simp add: refresh_frame)
  have h1: "has_http (heap ?s1 x)" if "x \<in> set as" for x
    using Cons.prems(3) [of x] that by (simp add: has_http_def refresh_frame)
  note ih = Cons.IH [OF d1 m1 h1]
  have uo: "url_of (heap ?s1 x) = url_of (heap s x)" for x
    by (simp add: url_of_def refresh_frame)
  have idle: "\<not> isUpdating (heap (snd (degradeLoop net as ?s1)) a)"
  proof (cases "a \<in> set as")
    case True
    with ih show ?thesis by blast
  next
    case False
    have "subscriptions t = subscriptions ?s1 \<Longrightarrow> (\<And>x. sub_id (heap t x) = sub_id (heap ?s1 x))
          \<Longrightarrow> (\<And>x. url (heap t x) = url (heap ?s1 x)) \<Longrightarrow> \<not> isUpdating (heap t a)
          \<Longrightarrow> set bs \<subseteq> set as
          \<Longrightarrow> \<not> isUpdating (heap (snd (degradeLoop net bs t)) a)" for bs t
    proof (induction bs arbitrary: t)
      case Nil
      then show ?case by simp
    next
      case (Cons b bs)
      let ?q = "handleUpdateNodeCount net (sub_id (heap t b)) False t"
      have bm: "b \<in> set (subscriptions t)" using Cons.prems(1,5) m1 by auto
      have dt: "distinct (map (\<lambda>a. sub_id (heap t a)) (subscriptions t))"
        using d1 Cons.prems(1,2) by simp
      have fb: "find_sub t (sub_id (heap t b)) = Some b" by (rule find_sub_distinct [OF dt bm])
      have "has_http (heap ?s1 b)" using Cons.prems(5) h1 by simp
      then have "has_http (heap t b)" using Cons.prems(3) by (simp add: has_http_def)
      then have ub: "url (heap t b) = Some (url_of (heap t b))" "is_http (url_of (heap t b))"
        by (simp_all add: has_http_url)
      obtain c' t' where ct': "?q = (c', t')" by (cases ?q)
      with refresh_issued(1) [OF fb ub, of net] have "c' = Normal" by simp
      with ct' have st: "degradeLoop net (b # bs) t = degradeLoop net bs (snd ?q)" by simp
      have "\<not> isUpdating (heap (snd ?q) a)"
        by (rule refresh_keeps_idle [OF Cons.prems(4) fb ub])
      moreover have "subscriptions (snd ?q) = subscriptions ?s1"
        "\<And>x. sub_id (heap (snd ?q) x) = sub_id (heap ?s1 x)"
        "\<And>x. url (heap (snd ?q) x) = url (heap ?s1 x)"
        using Cons.prems(1,2,3) by (simp_all add: refresh_frame)
      moreover have "set bs \<subseteq> set as" using Cons.prems(5) by simp
      ultimately show ?case unfolding st by (intro Cons.IH) simp_all
    qed
    from this [of ?s1 as] ri(3) show ?thesis by simp
  qed
  show ?case
    unfolding step
    using ih idle
    by (simp add: uo ri(2) refresh_frame)
qed

lemma degradeNotice_frame:
  "heap (degradeNotice out s) = heap s" "subscriptions (degradeNotice out s) = subscriptions s"
  "fetched (trace (degradeNotice out s)) = fetched (trace s)"
  by (simp_all add: degradeNotice_def showToast_def fetched_append split: batch_outcome.splits)

lemma bulk_resume_threw:
  "addSubscriptionsFromBulk_resume net subsToUpdate BatchThrew s
     = degradeLoop net subsToUpdate (degradeNotice BatchThrew s)"
  by (simp add: addSubscriptionsFromBulk_resume_def degradeNotice_def try_catch_def)

lemma bulk_resume_failed:
  assumes "\<not> success result"
    and "fst (degradeLoop net subsToUpdate (degradeNotice (BatchReturned result) s)) = Normal"
  shows "addSubscriptionsFromBulk_resume net subsToUpdate (BatchReturned result) s
           = degradeLoop net subsToUpdate (degradeNotice (BatchReturned result) s)"
proof -
  let ?d = "degradeLoop net subsToUpdate (degradeNotice (BatchReturned result) s)"
  from assms(2) have "?d = (Normal, snd ?d)" by (cases ?d) simp
  then have "try_catch ?d h = ?d" for h by (metis (no_types, lifting) try_catch_def case_prod_conv completion.simps(3))
  with assms(1) show ?thesis
    by (simp add: addSubscriptionsFromBulk_resume_def degradeNotice_def)
qed

lemma tick_resume_failure:
  assumes "out = BatchThrew \<or> (\<exists>result. out = BatchReturned result \<and> \<not> success result)"
  shows "autoUpdateTick_resume n out s = (Normal, emit ConsoleError s)"
    and "individualTick_resume a out s = (Normal, emit ConsoleError s)"
  using assms
  by (auto simp: autoUpdateTick_resume_def individualTick_resume_def try_catch_def)


lemma demo_imported_facts:
  "distinct (map (\<lambda>a. sub_id (heap demo_imported a)) (subscriptions demo_imported))"
  "set [3, 4] \<subseteq> set (subscriptions demo_imported)"
  "has_http (heap demo_imported 3)" "has_http (heap demo_imported 4)"
  "map (\<lambda>a. (url_of (heap demo_imported a), name (heap demo_imported a))) [3, 4]
     = [(''http://c'', ''C''), (''http://d'', ''D'')]"
  "trace demo_imported = []"
  by (simp_all add: demo_imported_def demo_state_def demo_sub_def has_http_def is_http_def url_of_def)



section \<open>Identifiers of the collection: proofs\<close>

lemma keeps_ids_refl [simp]: "keeps_ids s s"
  by (simp add: keeps_ids_def)

lemma keeps_ids_trans: "keeps_ids s t \<Longrightarrow> keeps_ids t u \<Longrightarrow> keeps_ids s u"
  by (simp add: keeps_ids_def)

lemma keeps_ids_ids: "keeps_ids s s' \<Longrightarrow> ids s' = ids s"
  by (simp add: keeps_ids_def ids_def)

lemma keeps_ids_fold:
  assumes "\<And>a t. keeps_ids t (f a t)"
  shows "keeps_ids s (fold f xs s)"
proof (induction xs arbitrary: s)
  case Nil
  show ?case by simp
next
  case (Cons a xs)
  have "keeps_ids s (f a s)" by (rule assms)
  moreover have "keeps_ids (f a s) (fold f xs (f a s))" by (rule Cons.IH)
  ultimately show ?case by (simp add: keeps_ids_trans)
qed

lemma keeps_emit [simp]: "keeps_ids s (emit e s)"
  by (simp add: keeps_ids_def)

lemma keeps_notify [simp]: "keeps_ids s (showToast t l s)" "keeps_ids s (markDirty s)"
  by (simp_all add: showToast_def markDirty_def)

lemma keeps_modify: "(\<And>r. sub_id (f r) = sub_id r) \<Longrightarrow> keeps_ids s (modify a f s)"
  by (simp add: keeps_ids_def)

lemma keeps_clearInterval [simp]: "keeps_ids s (clearInterval h s)"
  by (simp add: keeps_ids_def clearInterval_def)

lemma keeps_setInterval [simp]: "keeps_ids s (snd (setInterval act ms s))"
  by (simp add: keeps_ids_def setInterval_def)

lemma keeps_apply: "keeps_ids s (applyUpdateResults rs s)"
  by (simp add: keeps_ids_def apply_all_heap)

lemma keeps_refresh_begin: "keeps_ids s (snd (handleUpdateNodeCount_begin i b s))"
  by (simp add: keeps_ids_def begin_frame)

lemma keeps_refresh_resume: "keeps_ids s (snd (handleUpdateNodeCount_resume a b out s))"
  by (simp add: keeps_ids_def resume_frame)

lemma keeps_refresh: "keeps_ids s (snd (handleUpdateNodeCount net i b s))"
  by (simp add: keeps_ids_def refresh_frame)

lemma keeps_forEach:
  assumes "\<And>a t. keeps_ids t (snd (f a t))"
  shows "keeps_ids s (snd (forEach f xs s))"
proof (induction xs arbitrary: s)
  case Nil
  show ?case by simp
next
  case (Cons a xs)
  obtain c t where ct: "f a s = (c, t)" by (cases "f a s")
  have k: "keeps_ids s t" using assms [of s a] by (simp add: ct)
  show ?case
  proof (cases c)
    case Normal
    have "keeps_ids t (snd (forEach f xs t))" by (rule Cons.IH)
    with k have "keeps_ids s (snd (forEach f xs t))" by (rule keeps_ids_trans)
    then show ?thesis by (simp add: ct Normal)
  next
    case Abrupt
    with k show ?thesis by (simp add: ct)
  qed
qed

lemma degradeLoop_forEach:
  "degradeLoop net as s = forEach (\<lambda>a t. handleUpdateNodeCount net (sub_id (heap t a)) False t) as s"
  by (induction as arbitrary: s) (simp_all split: prod.splits completion.splits)

lemma keeps_degrade: "keeps_ids s (snd (degradeLoop net as s))"
  unfolding degradeLoop_forEach by (rule keeps_forEach) (rule keeps_refresh)

lemma keeps_try_catch:
  assumes "keeps_ids s (snd r)" "\<And>t. keeps_ids t (snd (h t))"
  shows "keeps_ids s (snd (try_catch r h))"
proof (cases r)
  case (Pair c t)
  show ?thesis
  proof (cases c)
    case Normal
    with Pair assms(1) show ?thesis by (simp add: try_catch_def)
  next
    case Abrupt
    have "keeps_ids t (snd (h t))" by (rule assms(2))
    with assms(1) Pair have "keeps_ids s (snd (h t))" by (simp add: keeps_ids_trans)
    with Pair Abrupt show ?thesis by (simp add: try_catch_def)
  qed
qed

lemma keeps_bulk_resume: "keeps_ids s (snd (addSubscriptionsFromBulk_resume net as out s))"
  unfolding addSubscriptionsFromBulk_resume_def
proof (rule keeps_try_catch)
  fix t
  have "keeps_ids t (showToast BulkThrewDegrading Error (emit ConsoleError t))"
    by (simp add: keeps_ids_def showToast_def)
  moreover have "keeps_ids (showToast BulkThrewDegrading Error (emit ConsoleError t))
                   (snd (degradeLoop net as (showToast BulkThrewDegrading Error (emit ConsoleError t))))"
    by (rule keeps_degrade)
  ultimately show "keeps_ids t (snd (degradeLoop net as
                                      (showToast BulkThrewDegrading Error (emit ConsoleError t))))"
    by (rule keeps_ids_trans)
next
  show "keeps_ids s (snd (case out of
          BatchThrew \<Rightarrow> (Abrupt, s)
        | BatchReturned result \<Rightarrow>
            if success result then
              (Normal,
               markDirty (showToast (BulkUpdateDone (successCount result) (length as)) Success
                 (applyUpdateResults (results result) s)))
            else
              degradeLoop net as
                (showToast BulkDegrading Info (showToast BulkUpdateFailed Error s))))"
  proof (cases out)
    case BatchThrew
    then show ?thesis by simp
  next
    case (BatchReturned result)
    show ?thesis
    proof (cases "success result")
      case True
      with BatchReturned show ?thesis by (simp add: keeps_ids_def apply_all_heap)
    next
      case False
      let ?n = "showToast BulkDegrading Info (showToast BulkUpdateFailed Error s)"
      have "keeps_ids s ?n" by (simp add: keeps_ids_def showToast_def)
      moreover have "keeps_ids ?n (snd (degradeLoop net as ?n))" by (rule keeps_degrade)
      ultimately have "keeps_ids s (snd (degradeLoop net as ?n))" by (rule keeps_ids_trans)
      with BatchReturned False show ?thesis by simp
    qed
  qed
qed

lemma keeps_tick_begin: "keeps_ids s (snd (autoUpdateTick_begin s))"
  by (simp add: autoUpdateTick_begin_def Let_def)

lemma keeps_tick_resume: "keeps_ids s (snd (autoUpdateTick_resume n out s))"
proof (cases "out = BatchThrew \<or> (\<exists>result. out = BatchReturned result \<and> \<not> success result)")
  case True
  then show ?thesis by (simp add: tick_resume_failure)
next
  case False
  then obtain result where "out = BatchReturned result" "success result"
    by (cases out) auto
  then show ?thesis
    by (simp add: tick_resume_success keeps_ids_def apply_all_heap)
qed

lemma keeps_item_resume: "keeps_ids s (snd (individualTick_resume a out s))"
proof (cases "out = BatchThrew \<or> (\<exists>result. out = BatchReturned result \<and> \<not> success result)")
  case True
  then show ?thesis by (simp add: tick_resume_failure)
next
  case False
  then obtain result where "out = BatchReturned result" "success result"
    by (cases out) auto
  then show ?thesis
    by (simp add: individualTick_resume_def try_catch_def Let_def keeps_ids_def apply_all_heap
          markDirty_def showToast_def)
qed

lemma keeps_setupAutoUpdate: "keeps_ids s (setupAutoUpdate s)"
  by (simp add: setupAutoUpdate_def Let_def keeps_ids_def clearInterval_def setInterval_def
        split: option.splits)

lemma keeps_clearTimersOf: "keeps_ids s (clearTimersOf a s)"
proof -
  have "keeps_ids s (fold clearInterval hs s)" for hs
    by (rule keeps_ids_fold) simp
  then show ?thesis
    by (auto simp: clearTimersOf_def keeps_ids_def split: option.splits)
qed

lemma keeps_clearAll: "keeps_ids s (clearIndividualUpdateTimers s)"
  unfolding clearIndividualUpdateTimers_def
  by (rule keeps_ids_fold) (rule keeps_clearTimersOf)

lemma keeps_armTimerOf: "keeps_ids s (snd (armTimerOf a s))"
  by (simp add: armTimerOf_def keeps_ids_def setInterval_def Let_def split: option.splits)

lemma keeps_setupIndividual: "keeps_ids s (snd (setupIndividualUpdateTimers s))"
proof -
  let ?s1 = "clearIndividualUpdateTimers s"
  have a: "keeps_ids s ?s1" by (rule keeps_clearAll)
  have "keeps_ids ?s1 (snd (forEach armTimerOf (subscriptions ?s1) ?s1))"
    by (rule keeps_forEach) (rule keeps_armTimerOf)
  with a have "keeps_ids s (snd (forEach armTimerOf (subscriptions ?s1) ?s1))"
    by (rule keeps_ids_trans)
  then show ?thesis by (simp add: setupIndividualUpdateTimers_def Let_def)
qed

lemma keeps_onUnmounted: "keeps_ids s (onUnmounted s)"
proof -
  let ?s1 = "case updateTimer s of Some h \<Rightarrow> (clearInterval h s)\<lparr>updateTimer := None\<rparr> | None \<Rightarrow> s"
  have "keeps_ids s ?s1" by (simp add: keeps_ids_def clearInterval_def split: option.splits)
  moreover have "keeps_ids ?s1 (clearIndividualUpdateTimers ?s1)" by (rule keeps_clearAll)
  ultimately show ?thesis unfolding onUnmounted_def by (rule keeps_ids_trans)
qed

lemma keeps_subInterval: "keeps_ids s (snd (handleSubscriptionUpdateIntervalChange i n s))"
proof (cases "find_sub s i")
  case None
  then show ?thesis by (simp add: handleSubscriptionUpdateIntervalChange_def)
next
  case (Some a)
  let ?s1 = "modify a (\<lambda>r. r\<lparr>updateInterval := n\<rparr>) s"
  have "keeps_ids s ?s1" by (rule keeps_modify) simp
  moreover have "keeps_ids ?s1 (snd (setupIndividualUpdateTimers ?s1))" by (rule keeps_setupIndividual)
  ultimately show ?thesis
    by (simp only: handleSubscriptionUpdateIntervalChange_def Some option.case) (rule keeps_ids_trans)
qed


lemma findIndex_Some:
  "findIndex P xs = Some i \<Longrightarrow> i < length xs \<and> P (xs ! i)"
proof (induction xs arbitrary: i)
  case Nil
  then show ?case by simp
next
  case (Cons x xs)
  show ?case
  proof (cases "P x")
    case True
    with Cons.prems show ?thesis by simp
  next
    case False
    with Cons.prems obtain j where j: "findIndex P xs = Some j" "i = Suc j" by auto
    from Cons.IH [OF j(1)] j(2) show ?thesis by simp
  qed
qed

lemma ids_update:
  assumes "findIndex (\<lambda>a. sub_id (heap s a) = sub_id (heap s u)) (subscriptions s) = Some index"
    and "keeps_ids s s2"
  shows "ids (s2\<lparr>subscriptions := (subscriptions s2)[index := u]\<rparr>) = ids s"
proof -
  from findIndex_Some [OF assms(1)]
  have i: "index < length (subscriptions s)"
    and e: "sub_id (heap s (subscriptions s ! index)) = sub_id (heap s u)"
    by simp_all
  have "map (\<lambda>a. sub_id (heap s a)) ((subscriptions s)[index := u])
          = (map (\<lambda>a. sub_id (heap s a)) (subscriptions s))[index := sub_id (heap s u)]"
    by (simp add: map_update)
  also have "\<dots> = map (\<lambda>a. sub_id (heap s a)) (subscriptions s)"
    using i e by (metis length_map list_update_id nth_map)
  finally show ?thesis using assms(2) by (simp add: ids_def keeps_ids_def)
qed

lemma ids_updateSubscription: "ids (snd (updateSubscription u s)) = ids s"
proof (cases "findIndex (\<lambda>a. sub_id (heap s a) = sub_id (heap s u)) (subscriptions s)")
  case None
  then show ?thesis by (simp add: updateSubscription_def)
next
  case (Some index)
  let ?s1 = "modify u (\<lambda>r. r\<lparr>nodeCount := Some 0\<rparr>) s"
  let ?r = "if url (heap s (subscriptions s ! index)) \<noteq> url (heap s u)
            then handleUpdateNodeCount_begin (sub_id (heap ?s1 u)) False ?s1 else (Returned, s)"
  have k1: "keeps_ids s ?s1" by (rule keeps_modify) simp
  have "keeps_ids ?s1 (snd (handleUpdateNodeCount_begin (sub_id (heap ?s1 u)) False ?s1))"
    by (rule keeps_refresh_begin)
  with k1 have "keeps_ids s (snd (handleUpdateNodeCount_begin (sub_id (heap ?s1 u)) False ?s1))"
    by (rule keeps_ids_trans)
  then have k: "keeps_ids s (snd ?r)" by simp
  have m: "ids (markDirty t) = ids t" for t by (simp add: ids_def markDirty_def)
  have "snd (updateSubscription u s)
          = markDirty ((snd ?r)\<lparr>subscriptions := (subscriptions (snd ?r))[index := u]\<rparr>)"
    by (simp add: updateSubscription_def Some Let_def split: prod.splits)
  then show ?thesis by (simp only: m ids_update [OF Some k])
qed

lemma ids_addSubscription: "ids (snd (addSubscription a s)) = sub_id (heap s a) # ids s"
proof -
  let ?s2 = "s\<lparr>subscriptions := a # subscriptions s, subsCurrentPage := 1\<rparr>"
  have "keeps_ids ?s2 (snd (handleUpdateNodeCount_begin (sub_id (heap ?s2 a)) False ?s2))"
    by (rule keeps_refresh_begin)
  then have "ids (snd (handleUpdateNodeCount_begin (sub_id (heap ?s2 a)) False ?s2)) = ids ?s2"
    by (rule keeps_ids_ids)
  moreover have "ids (markDirty t) = ids t" for t by (simp add: ids_def markDirty_def)
  moreover have "ids ?s2 = sub_id (heap s a) # ids s" by (simp add: ids_def)
  ultimately show ?thesis
    by (simp add: addSubscription_def Let_def case_prod_beta)
qed

lemma ids_bulk_begin:
  "ids (snd (addSubscriptionsFromBulk_begin as s)) = map (\<lambda>a. sub_id (heap s a)) as @ ids s"
  by (simp add: addSubscriptionsFromBulk_begin_def Let_def ids_def markDirty_def showToast_def)

lemma ids_delete: "ids (deleteSubscription i s) = filter (\<lambda>j. j \<noteq> i) (ids s)"
  by (simp add: ids_def delete_frame filter_map comp_def)

lemma ids_deleteAll: "ids (deleteAllSubscriptions s) = []"
  by (simp add: ids_def deleteAll_frame)

lemma ids_initialize:
  "ids (initializeSubscriptions uuid subsData s)
     = map sub_id (initRecords uuid 0 (case subsData of None \<Rightarrow> [] | Some l \<Rightarrow> l))"
proof -
  let ?recs = "initRecords uuid 0 (case subsData of None \<Rightarrow> [] | Some l \<Rightarrow> l)"
  let ?s' = "initializeSubscriptions uuid subsData s"
  have s': "?s' = (snd (alloc ?recs s))\<lparr>subscriptions := fst (alloc ?recs s)\<rparr>"
    by (simp add: initializeSubscriptions_def split: prod.splits)
  have subs: "subscriptions ?s' = [nextAddr s ..< nextAddr s + length ?recs]"
    by (simp add: s' alloc_fst)
  have hp: "heap ?s' (nextAddr s + i) = ?recs ! i" if "i < length ?recs" for i
    using that by (simp add: s' alloc_heap)
  show ?thesis
  proof (rule nth_equalityI)
    show "length (ids ?s') = length (map sub_id ?recs)" by (simp add: ids_def subs)
  next
    fix i assume "i < length (ids ?s')"
    then have i: "i < length ?recs" by (simp add: ids_def subs)
    then show "ids ?s' ! i = map sub_id ?recs ! i"
      by (simp add: ids_def subs hp)
  qed
qed

lemma given_ids_lacks: "lacks_id r \<Longrightarrow> given_ids (r # rs) = given_ids rs"
  by (simp add: given_ids_def lacks_id_def split: option.splits)

lemma given_ids_has:
  "\<not> lacks_id r \<Longrightarrow> given_ids (r # rs) = chosen_id uuid k r # given_ids rs"
  by (simp add: given_ids_def lacks_id_def chosen_id_def split: option.splits)

lemma chosen_lacks: "lacks_id r \<Longrightarrow> chosen_id uuid k r = uuid k"
  by (simp add: lacks_id_def chosen_id_def split: option.splits)

lemma normalize_id: "sub_id (normalize r i) = i"
  by (simp add: normalize_def)

lemma given_ids_nonempty: "[] \<notin> set (given_ids rs)"
  by (auto simp: given_ids_def split: option.splits if_splits)

lemma upt_shift: "[k ..< Suc (k + n)] = k # [Suc k ..< Suc (k + n)]"
  by (rule upt_conv_Cons) simp

lemma initRecords_id_set:
  "set (map sub_id (initRecords uuid k rs))
     = set (given_ids rs) \<union> set (map uuid [k ..< k + length (filter lacks_id rs)])"
proof (induction rs arbitrary: k)
  case Nil
  show ?case by (simp add: given_ids_def)
next
  case (Cons r rs)
  let ?n = "length (filter lacks_id rs)"
  show ?case
  proof (cases "lacks_id r")
    case True
    have "set (map sub_id (initRecords uuid k (r # rs)))
            = insert (uuid k) (set (map sub_id (initRecords uuid (Suc k) rs)))"
      using True by (simp add: normalize_id chosen_lacks)
    also have "\<dots> = insert (uuid k) (set (given_ids rs) \<union> set (map uuid [Suc k ..< Suc k + ?n]))"
      by (simp only: Cons.IH)
    also have "\<dots> = set (given_ids rs) \<union> set (map uuid (k # [Suc k ..< Suc (k + ?n)]))"
      by simp
    also have "\<dots> = set (given_ids rs) \<union> set (map uuid [k ..< Suc (k + ?n)])"
      by (simp only: upt_shift [symmetric])
    also have "\<dots> = set (given_ids (r # rs))
                      \<union> set (map uuid [k ..< k + length (filter lacks_id (r # rs))])"
      using True by (simp add: given_ids_lacks)
    finally show ?thesis .
  next
    case False
    have "set (map sub_id (initRecords uuid k (r # rs)))
            = insert (chosen_id uuid k r) (set (map sub_id (initRecords uuid k rs)))"
      using False by (simp add: normalize_id)
    also have "\<dots> = insert (chosen_id uuid k r)
                        (set (given_ids rs) \<union> set (map uuid [k ..< k + ?n]))"
      by (simp only: Cons.IH)
    also have "\<dots> = set (given_ids (r # rs))
                      \<union> set (map uuid [k ..< k + length (filter lacks_id (r # rs))])"
      using False by (simp add: given_ids_has [of r rs uuid k])
    finally show ?thesis .
  qed
qed

lemma initRecords_id_distinct:
  "distinct (given_ids rs @ map uuid [k ..< k + length (filter lacks_id rs)])
   \<Longrightarrow> distinct (map sub_id (initRecords uuid k rs))"
proof (induction rs arbitrary: k)
  case Nil
  show ?case by simp
next
  case (Cons r rs)
  let ?n = "length (filter lacks_id rs)"
  show ?case
  proof (cases "lacks_id r")
    case True
    from Cons.prems True
    have "distinct (given_ids rs @ map uuid [k ..< Suc (k + ?n)])"
      by (simp add: given_ids_lacks)
    then have "distinct (given_ids rs @ map uuid (k # [Suc k ..< Suc (k + ?n)]))"
      by (simp only: upt_shift [symmetric])
    then have d: "distinct (given_ids rs @ uuid k # map uuid [Suc k ..< Suc k + ?n])"
      by simp
    from d have rest: "distinct (given_ids rs @ map uuid [Suc k ..< Suc k + ?n])"
      by auto
    from d have new: "uuid k \<notin> set (given_ids rs) \<union> set (map uuid [Suc k ..< Suc k + ?n])"
      by auto
    have "map sub_id (initRecords uuid k (r # rs))
            = uuid k # map sub_id (initRecords uuid (Suc k) rs)"
      using True by (simp add: normalize_id chosen_lacks)
    moreover have "uuid k \<notin> set (map sub_id (initRecords uuid (Suc k) rs))"
      unfolding initRecords_id_set by (rule new)
    ultimately show ?thesis using Cons.IH [OF rest] by (simp only: distinct.simps) simp
  next
    case False
    from Cons.prems False
    have d: "distinct (chosen_id uuid k r # given_ids rs @ map uuid [k ..< k + ?n])"
      by (simp add: given_ids_has [of r rs uuid k])
    from d have rest: "distinct (given_ids rs @ map uuid [k ..< k + ?n])"
      by auto
    from d have new: "chosen_id uuid k r \<notin> set (given_ids rs) \<union> set (map uuid [k ..< k + ?n])"
      by auto
    have "map sub_id (initRecords uuid k (r # rs))
            = chosen_id uuid k r # map sub_id (initRecords uuid k rs)"
      using False by (simp add: normalize_id)
    moreover have "chosen_id uuid k r \<notin> set (map sub_id (initRecords uuid k rs))"
      unfolding initRecords_id_set by (rule new)
    ultimately show ?thesis using Cons.IH [OF rest] by (simp only: distinct.simps) simp
  qed
qed

lemma add_sub_id: "sub_id (heap (snd (addSubscription a s)) x) = sub_id (heap s x)"
  using begin_frame(2) [of "sub_id (heap s a)" False
          "s\<lparr>subscriptions := a # subscriptions s, subsCurrentPage := 1\<rparr>" x]
  by (simp add: addSubscription_def Let_def case_prod_beta markDirty_def)

lemma bulk_begin_heap: "heap (snd (addSubscriptionsFromBulk_begin as s)) = heap s"
  by (simp add: addSubscriptionsFromBulk_begin_def Let_def markDirty_def showToast_def)

lemma keeps_intervalChange: "keeps_ids s (handleUpdateIntervalChange n s)"
proof -
  have "keeps_ids s (s\<lparr>updateInterval_ref := n\<rparr>)" by (simp add: keeps_ids_def)
  moreover have "keeps_ids (s\<lparr>updateInterval_ref := n\<rparr>) (setupAutoUpdate (s\<lparr>updateInterval_ref := n\<rparr>))"
    by (rule keeps_setupAutoUpdate)
  ultimately show ?thesis unfolding handleUpdateIntervalChange_def by (rule keeps_ids_trans)
qed

lemma keeps_settings: "keeps_ids s (initializeUpdateInterval v s)"
proof (cases v)
  case None
  then show ?thesis by (simp add: initializeUpdateInterval_def)
next
  case (Some w)
  let ?n = "case w of None \<Rightarrow> 0 | Some n \<Rightarrow> n"
  have "keeps_ids s (handleUpdateIntervalChange ?n s)" by (rule keeps_intervalChange)
  then show ?thesis by (simp add: initializeUpdateInterval_def Some handleUpdateIntervalChange_def)
qed

lemma keeps_changePage: "keeps_ids s (changeSubsPage p s)"
  by (simp add: changeSubsPage_def keeps_ids_def)

lemma exec_unique:
  assumes "unique_ids s" "fresh_input c s"
  shows "unique_ids (exec c s)"
proof -
  have k: "unique_ids t" if "keeps_ids s t" for t
    using assms(1) keeps_ids_ids [OF that] by (simp add: unique_ids_def)
  show ?thesis
  proof (cases c)
    case (Initialize uuid d)
    let ?raws = "case d of None \<Rightarrow> [] | Some l \<Rightarrow> l"
    from assms(2) Initialize
    have f: "distinct (given_ids ?raws @ map uuid [0 ..< 0 + length (filter lacks_id ?raws)])"
      and e: "[] \<notin> set (map uuid [0 ..< 0 + length (filter lacks_id ?raws)])"
      by (simp_all add: Let_def drawn_ids_def)
    have "distinct (map sub_id (initRecords uuid 0 ?raws))"
      by (rule initRecords_id_distinct [OF f])
    moreover have "[] \<notin> set (map sub_id (initRecords uuid 0 ?raws))"
      unfolding initRecords_id_set using e given_ids_nonempty [of ?raws] by blast
    ultimately show ?thesis using Initialize by (simp add: unique_ids_def ids_initialize)
  next
    case (Add a)
    with assms show ?thesis by (auto simp: unique_ids_def ids_addSubscription)
  next
    case (AddBulk as)
    with assms show ?thesis by (auto simp: unique_ids_def ids_bulk_begin Let_def)
  next
    case (BulkAnswer net as out)
    then show ?thesis by (simp add: k keeps_bulk_resume)
  next
    case (Update u)
    with assms(1) show ?thesis by (simp add: unique_ids_def ids_updateSubscription)
  next
    case (Delete i)
    with assms(1) show ?thesis by (simp add: unique_ids_def ids_delete)
  next
    case DeleteAll
    then show ?thesis by (simp add: unique_ids_def ids_deleteAll)
  next
    case (Refresh i b)
    then show ?thesis by (simp add: k keeps_refresh_begin)
  next
    case (RefreshAnswer a b out)
    then show ?thesis by (simp add: k keeps_refresh_resume)
  next
    case GlobalTick
    then show ?thesis by (simp add: k keeps_tick_begin)
  next
    case (GlobalTickAnswer n out)
    then show ?thesis by (simp add: k keeps_tick_resume)
  next
    case (ItemTick a)
    then show ?thesis by (simp add: k individualTick_begin_def)
  next
    case (ItemTickAnswer a out)
    then show ?thesis by (simp add: k keeps_item_resume)
  next
    case (IntervalChange n)
    then show ?thesis by (simp add: k keeps_intervalChange)
  next
    case (SubscriptionIntervalChange i n)
    then show ?thesis by (simp add: k keeps_subInterval)
  next
    case (SettingsAnswer v)
    then show ?thesis by (simp add: k keeps_settings)
  next
    case Mounted
    then show ?thesis by (simp add: k keeps_setupIndividual)
  next
    case Unmounted
    then show ?thesis by (simp add: k keeps_onUnmounted)
  next
    case (ChangePage p)
    then show ?thesis by (simp add: k keeps_changePage)
  qed
qed

text \<open>
  C9 as the code has it. From a collection whose identifiers are unique and non-empty,
  every sequence of steps (store operations, refreshes, ticks, their answers, timer
  changes) leads to such a collection again, provided that the callers keep their side:
  each record passed to \<open>addSubscription\<close> or \<open>addSubscriptionsFromBulk\<close> carries a
  non-empty identifier that no record of the collection and no other record of the
  same import carries; the seeds passed to \<open>initializeSubscriptions\<close> bring pairwise
  different identifiers; and the values \<open>crypto.randomUUID\<close> returns for the seeds
  that bring none are non-empty, different from each other and from the identifiers of
  the seeds. \<open>initializeSubscriptions\<close> gives the collection exactly these
  identifiers: those the seeds bring and one value of \<open>crypto.randomUUID\<close> for each
  seed without one. \<open>updateSubscription\<close>, \<open>deleteSubscription\<close>,
  \<open>deleteAllSubscriptions\<close>, both refreshers and both schedulers need no proviso.
\<close>

theorem C9_unique_ids_preserved:
  assumes "unique_ids s" "fresh_inputs cs s"
  shows "unique_ids (run cs s)
       \<and> (\<forall>uuid raws t.
             length (ids (exec (Initialize uuid (Some raws)) t)) = length raws
             \<and> set (ids (exec (Initialize uuid (Some raws)) t))
                 = set (given_ids raws) \<union> set (drawn_ids uuid raws))"
proof
  show "unique_ids (run cs s)"
    using assms
  proof (induction cs arbitrary: s)
    case Nil
    then show ?case by simp
  next
    case (Cons c cs)
    from Cons.prems have "unique_ids (exec c s)" by (simp add: exec_unique)
    moreover from Cons.prems have "fresh_inputs cs (exec c s)" by simp
    ultimately show ?case by (simp add: Cons.IH)
  qed
  show "\<forall>uuid raws t.
             length (ids (exec (Initialize uuid (Some raws)) t)) = length raws
             \<and> set (ids (exec (Initialize uuid (Some raws)) t))
                 = set (given_ids raws) \<union> set (drawn_ids uuid raws)"
    by (simp add: ids_initialize initRecords_length initRecords_id_set [of _ 0, simplified]
          drawn_ids_def)
qed

lemma demo_unique: "unique_ids demo_state"
  by (simp add: unique_ids_def ids_def demo_state_def demo_sub_def)

lemma demo_run_ids:
  "ids (exec (Initialize demo_uuid (Some demo_seeds)) demo_state) = [''u'', ''k'', ''uu'']"
  "sub_id (heap (exec (Initialize demo_uuid (Some demo_seeds)) demo_state) 0) = ''a''"
  "sub_id (heap (exec (Initialize demo_uuid (Some demo_seeds)) demo_state) 2) = ''b''"
proof -
  let ?recs = "initRecords demo_uuid 0 demo_seeds"
  let ?s' = "initializeSubscriptions demo_uuid (Some demo_seeds) demo_state"
  have s': "?s' = (snd (alloc ?recs demo_state))\<lparr>subscriptions := fst (alloc ?recs demo_state)\<rparr>"
    by (simp add: initializeSubscriptions_def split: prod.splits)
  have n: "nextAddr demo_state = 3" by (simp add: demo_state_def)
  have h: "heap ?s' a = heap demo_state a" if "a < 3" for a
    using that by (simp add: s' alloc_heap n)
  show "ids (exec (Initialize demo_uuid (Some demo_seeds)) demo_state) = [''u'', ''k'', ''uu'']"
    by (simp add: ids_initialize)
       (simp add: demo_seeds_def chosen_id_def lacks_id_def demo_uuid_def normalize_def)
  show "sub_id (heap (exec (Initialize demo_uuid (Some demo_seeds)) demo_state) 0) = ''a''"
    by (simp add: h) (simp add: demo_state_def demo_sub_def)
  show "sub_id (heap (exec (Initialize demo_uuid (Some demo_seeds)) demo_state) 2) = ''b''"
    by (simp add: h) (simp add: demo_state_def demo_sub_def)
qed

theorem C9_witness:
  "unique_ids demo_state
   \<and> fresh_inputs [Initialize demo_uuid (Some demo_seeds), Add 0, AddBulk [2], Delete ''k'']
        demo_state
   \<and> ids (run [Initialize demo_uuid (Some demo_seeds), Add 0, AddBulk [2], Delete ''k''] demo_state)
       = [''b'', ''a'', ''u'', ''uu'']
   \<and> unique_ids (run [Initialize demo_uuid (Some demo_seeds), Add 0, AddBulk [2], Delete ''k'']
                    demo_state)"
proof -
  let ?s1 = "exec (Initialize demo_uuid (Some demo_seeds)) demo_state"
  let ?s2 = "exec (Add 0) ?s1"
  let ?s3 = "exec (AddBulk [2]) ?s2"
  let ?cs = "[Initialize demo_uuid (Some demo_seeds), Add 0, AddBulk [2], Delete ''k'']"
  have f1: "fresh_input (Initialize demo_uuid (Some demo_seeds)) demo_state"
    by (auto simp: given_ids_def drawn_ids_def lacks_id_def demo_seeds_def demo_uuid_def)
  have i2: "ids ?s2 = [''a'', ''u'', ''k'', ''uu'']"
    unfolding exec.simps(2) ids_addSubscription
    using demo_run_ids(1,2) by simp
  have f2: "fresh_input (Add 0) ?s1"
    using demo_run_ids(1,2) by simp
  have b2: "sub_id (heap ?s2 2) = ''b''"
    unfolding exec.simps(2) add_sub_id using demo_run_ids(3) by simp
  have f3: "fresh_input (AddBulk [2]) ?s2"
    unfolding fresh_input.simps Let_def i2 by (simp add: b2 del: exec.simps)
  have i3: "ids ?s3 = [''b'', ''a'', ''u'', ''k'', ''uu'']"
    unfolding exec.simps(3) ids_bulk_begin i2 by (simp add: b2 del: exec.simps)
  have f: "fresh_inputs ?cs demo_state"
    unfolding fresh_inputs.simps using f1 f2 f3 by simp
  have r: "run ?cs demo_state = exec (Delete ''k'') ?s3" by simp
  have i: "ids (run ?cs demo_state) = [''b'', ''a'', ''u'', ''uu'']"
    unfolding r exec.simps(6) ids_delete i3 by simp
  from C9_unique_ids_preserved [OF demo_unique f, THEN conjunct1] demo_unique f i
  show ?thesis by (intro conjI)
qed

text \<open>
  C9 as the specification words it does not hold for \<open>addSubscription\<close>, which
  prepends whatever it is given, nor for \<open>initializeSubscriptions\<close>, which keeps the
  identifiers of the seeds as they come. On the collection above (identifiers \<open>a\<close>
  and \<open>b\<close>), adding object 1, whose identifier is \<open>a\<close> as well, leaves two
  records with the same identifier; and two seeds with the identifier \<open>k\<close> become
  two records with the identifier \<open>k\<close>.
\<close>

theorem C9_counterexample:
  "unique_ids demo_state
   \<and> ids (exec (Add 1) demo_state) = [''a'', ''a'', ''b'']
   \<and> \<not> unique_ids (exec (Add 1) demo_state)
   \<and> ids (exec (Initialize demo_uuid (Some [demo_seeds ! 1, demo_seeds ! 1])) demo_state)
       = [''k'', ''k'']
   \<and> \<not> unique_ids (exec (Initialize demo_uuid (Some [demo_seeds ! 1, demo_seeds ! 1])) demo_state)"
proof -
  have i: "ids (exec (Add 1) demo_state) = [''a'', ''a'', ''b'']"
    unfolding exec.simps ids_addSubscription
    by (simp add: ids_def demo_state_def demo_sub_def)
  have n: "\<not> unique_ids (exec (Add 1) demo_state)"
    unfolding unique_ids_def i by simp
  have j: "ids (exec (Initialize demo_uuid (Some [demo_seeds ! 1, demo_seeds ! 1])) demo_state)
             = [''k'', ''k'']"
    unfolding exec.simps ids_initialize
    by (simp add: demo_seeds_def chosen_id_def lacks_id_def normalize_def)
  have m: "\<not> unique_ids (exec (Initialize demo_uuid (Some [demo_seeds ! 1, demo_seeds ! 1])) demo_state)"
    unfolding unique_ids_def j by simp
  from demo_unique i n j m show ?thesis by (intro conjI)
qed

section \<open>Per-item timers: proofs\<close>

lemma clearInterval_frame [simp]:
  "heap (clearInterval h s) = heap s" "subscriptions (clearInterval h s) = subscriptions s"
  "nextHandle (clearInterval h s) = nextHandle s"
  "timers (clearInterval h s) k = (if k = h then None else timers s k)"
  by (simp_all add: clearInterval_def)

lemma clear_handles:
  "heap (fold clearInterval hs s) = heap s"
  "subscriptions (fold clearInterval hs s) = subscriptions s"
  "nextHandle (fold clearInterval hs s) = nextHandle s"
  "timers (fold clearInterval hs s) k = (if k \<in> set hs then None else timers s k)"
  by (induction hs arbitrary: s) simp_all

lemma clearTimersOf_frame:
  "subscriptions (clearTimersOf a s) = subscriptions s"
  "nextHandle (clearTimersOf a s) = nextHandle s"
  by (simp_all add: clearTimersOf_def modify_def clear_handles split: option.splits)

lemma clearTimersOf_heap:
  "heap (clearTimersOf a s) x
     = (if x = a \<and> tracked s a \<noteq> [] then (heap s a)\<lparr>updateTimers := Some []\<rparr> else heap s x)"
  by (simp add: clearTimersOf_def tracked_def clear_handles split: option.splits)

lemma clearTimersOf_timers:
  "timers (clearTimersOf a s) h = (if h \<in> set (tracked s a) then None else timers s h)"
  by (simp add: clearTimersOf_def tracked_def clear_handles split: option.splits)

lemma clearTimersOf_tracked:
  "tracked (clearTimersOf a s) x = (if x = a then [] else tracked s x)"
  by (simp add: tracked_def clearTimersOf_heap split: option.splits)

lemma clearTimersOf_eligible:
  "eligible (heap (clearTimersOf a s) x) = eligible (heap s x)"
  "updateInterval (heap (clearTimersOf a s) x) = updateInterval (heap s x)"
  "url_throws (heap (clearTimersOf a s) x) = url_throws (heap s x)"
  by (simp_all add: clearTimersOf_heap eligible_def has_http_def url_throws_def)

lemma clear_fold_frame:
  "subscriptions (fold clearTimersOf xs s) = subscriptions s"
  "nextHandle (fold clearTimersOf xs s) = nextHandle s"
  "eligible (heap (fold clearTimersOf xs s) x) = eligible (heap s x)"
  "updateInterval (heap (fold clearTimersOf xs s) x) = updateInterval (heap s x)"
  "url_throws (heap (fold clearTimersOf xs s) x) = url_throws (heap s x)"
  by (induction xs arbitrary: s) (simp_all add: clearTimersOf_frame clearTimersOf_eligible)

lemma clear_fold_tracked:
  "tracked (fold clearTimersOf xs s) x = (if x \<in> set xs then [] else tracked s x)"
  by (induction xs arbitrary: s) (simp_all add: clearTimersOf_tracked)

lemma clear_fold_timers:
  "timers (fold clearTimersOf xs s) h
     = (if \<exists>a \<in> set xs. h \<in> set (tracked s a) then None else timers s h)"
proof (induction xs arbitrary: s)
  case Nil
  show ?case by simp
next
  case (Cons a xs)
  show ?case
    by (simp add: Cons.IH clearTimersOf_tracked clearTimersOf_timers) auto
qed

lemma eligible_iff:
  "eligible r \<longleftrightarrow> enabled r \<and> (\<exists>u. url r = Some u \<and> is_http u)
                 \<and> (\<exists>m. updateInterval r = Some m \<and> 0 < m)"
  by (auto simp: eligible_def has_http_def split: option.splits)

lemma eligible_no_throw: "eligible r \<Longrightarrow> \<not> url_throws r"
  by (auto simp: eligible_def has_http_def url_throws_def split: option.splits)

lemma timer_delay_minutes:
  "0 < m \<Longrightarrow> m \<le> 35791 \<Longrightarrow> timer_delay (m * 60 * 1000) = m * 60 * 1000"
  "35791 < m \<Longrightarrow> timer_delay (m * 60 * 1000) = 1"
  by (simp_all add: timer_delay_def)

lemma arm_skip: "\<not> eligible (heap s a) \<Longrightarrow> arm a s = s"
  by (simp add: arm_def armTimerOf_def)

lemma arm_fst: "fst (armTimerOf a s) = (if url_throws (heap s a) then Abrupt else Normal)"
  by (simp add: armTimerOf_def setInterval_def Let_def split: option.splits)

lemma arm_arm:
  assumes "eligible (heap s a)" "updateInterval (heap s a) = Some m"
  shows "heap (arm a s) x
           = (if x = a then (heap s a)\<lparr>updateTimers := Some (tracked s a @ [nextHandle s])\<rparr>
              else heap s x)"
    and "timers (arm a s) h
           = (if h = nextHandle s
              then Some \<lparr>period = timer_delay (m * 60 * 1000), action = IndividualUpdate a\<rparr>
              else timers s h)"
    and "nextHandle (arm a s) = Suc (nextHandle s)"
proof -
  from assms(1) have nt: "\<not> url_throws (heap s a)" by (rule eligible_no_throw)
  show "heap (arm a s) x
           = (if x = a then (heap s a)\<lparr>updateTimers := Some (tracked s a @ [nextHandle s])\<rparr>
              else heap s x)"
    using assms nt
    by (simp add: arm_def armTimerOf_def setInterval_def tracked_def modify_def Let_def
          split: option.splits)
  show "timers (arm a s) h
           = (if h = nextHandle s
              then Some \<lparr>period = timer_delay (m * 60 * 1000), action = IndividualUpdate a\<rparr>
              else timers s h)"
    using assms nt
    by (simp add: arm_def armTimerOf_def setInterval_def tracked_def modify_def Let_def
          split: option.splits)
  show "nextHandle (arm a s) = Suc (nextHandle s)"
    using assms nt
    by (simp add: arm_def armTimerOf_def setInterval_def tracked_def modify_def Let_def
          split: option.splits)
qed

lemma arm_frame:
  "subscriptions (arm a s) = subscriptions s"
  "eligible (heap (arm a s) x) = eligible (heap s x)"
  "updateInterval (heap (arm a s) x) = updateInterval (heap s x)"
  "url_throws (heap (arm a s) x) = url_throws (heap s x)"
  "nextHandle s \<le> nextHandle (arm a s)"
  by (simp_all add: arm_def armTimerOf_def setInterval_def modify_def Let_def eligible_def
        has_http_def url_throws_def split: option.splits)

lemma arm_other:
  "x \<noteq> a \<Longrightarrow> heap (arm a s) x = heap s x"
  by (simp add: arm_def armTimerOf_def setInterval_def modify_def Let_def split: option.splits)

lemma arm_timers_old:
  "h \<noteq> nextHandle s \<Longrightarrow> timers (arm a s) h = timers s h"
  by (simp add: arm_def armTimerOf_def setInterval_def modify_def Let_def split: option.splits)

text \<open>The arming loop runs to its end exactly when no enabled record lacks its url.\<close>

lemma forEach_arm:
  "\<forall>a \<in> set xs. \<not> url_throws (heap s a) \<Longrightarrow> forEach armTimerOf xs s = (Normal, fold arm xs s)"
proof (induction xs arbitrary: s)
  case Nil
  show ?case by simp
next
  case (Cons a xs)
  from Cons.prems have "fst (armTimerOf a s) = Normal" by (simp add: arm_fst)
  then have e: "armTimerOf a s = (Normal, arm a s)" by (simp add: arm_def prod_eq_iff)
  from Cons.prems have "\<forall>b \<in> set xs. \<not> url_throws (heap (arm a s) b)" by (simp add: arm_frame)
  then have "forEach armTimerOf xs (arm a s) = (Normal, fold arm xs (arm a s))" by (rule Cons.IH)
  with e show ?case by simp
qed

lemma forEach_abrupt:
  "\<exists>a \<in> set xs. url_throws (heap s a) \<Longrightarrow> fst (forEach armTimerOf xs s) = Abrupt"
proof (induction xs arbitrary: s)
  case Nil
  then show ?case by simp
next
  case (Cons a xs)
  show ?case
  proof (cases "url_throws (heap s a)")
    case True
    then show ?thesis by (simp add: armTimerOf_def)
  next
    case False
    then have "fst (armTimerOf a s) = Normal" by (simp add: arm_fst)
    then have e: "armTimerOf a s = (Normal, arm a s)" by (simp add: arm_def prod_eq_iff)
    from Cons.prems False have "\<exists>b \<in> set xs. url_throws (heap s b)" by auto
    then have "\<exists>b \<in> set xs. url_throws (heap (arm a s) b)" by (simp add: arm_frame)
    then have "fst (forEach armTimerOf xs (arm a s)) = Abrupt" by (rule Cons.IH)
    with e show ?thesis by simp
  qed
qed

lemma arm_fold_frame:
  "subscriptions (fold arm xs s) = subscriptions s"
  "eligible (heap (fold arm xs s) x) = eligible (heap s x)"
  "updateInterval (heap (fold arm xs s) x) = updateInterval (heap s x)"
  by (induction xs arbitrary: s) (simp_all add: arm_frame)

lemma arm_fold_next: "nextHandle s \<le> nextHandle (fold arm xs s)"
proof (induction xs arbitrary: s)
  case Nil
  show ?case by simp
next
  case (Cons a xs)
  have "nextHandle s \<le> nextHandle (arm a s)" by (rule arm_frame)
  also have "\<dots> \<le> nextHandle (fold arm xs (arm a s))" by (rule Cons.IH)
  finally show ?case by simp
qed

lemma arm_fold_outside: "x \<notin> set xs \<Longrightarrow> heap (fold arm xs s) x = heap s x"
  by (induction xs arbitrary: s) (simp_all add: arm_other)

lemma arm_fold_timers_old:
  "h < nextHandle s \<or> nextHandle (fold arm xs s) \<le> h
   \<Longrightarrow> timers (fold arm xs s) h = timers s h"
proof (induction xs arbitrary: s)
  case Nil
  show ?case by simp
next
  case (Cons a xs)
  let ?s1 = "arm a s"
  have le: "nextHandle s \<le> nextHandle ?s1" by (rule arm_frame)
  have lt: "nextHandle s < nextHandle (fold arm xs ?s1)" if "eligible (heap s a)"
  proof -
    from that obtain m where "updateInterval (heap s a) = Some m" by (auto simp: eligible_iff)
    from arm_arm(3) [OF that this] have "nextHandle ?s1 = Suc (nextHandle s)" .
    with arm_fold_next [of ?s1 xs] show ?thesis by simp
  qed
  from Cons.prems le have "h < nextHandle ?s1 \<or> nextHandle (fold arm xs ?s1) \<le> h"
    by auto
  then have "timers (fold arm xs ?s1) h = timers ?s1 h" by (rule Cons.IH)
  moreover have "timers ?s1 h = timers s h"
  proof (cases "eligible (heap s a)")
    case True
    with Cons.prems lt have "h \<noteq> nextHandle s" by auto
    then show ?thesis by (rule arm_timers_old)
  next
    case False
    then show ?thesis by (simp add: arm_skip)
  qed
  ultimately show ?case by simp
qed

lemma arm_fold_skip:
  "\<not> eligible (heap s a) \<Longrightarrow> heap (fold arm xs s) a = heap s a"
proof (induction xs arbitrary: s)
  case Nil
  show ?case by simp
next
  case (Cons b xs)
  let ?s1 = "arm b s"
  from Cons.prems have "\<not> eligible (heap ?s1 a)" by (simp add: arm_frame)
  then have "heap (fold arm xs ?s1) a = heap ?s1 a" by (rule Cons.IH)
  moreover have "heap ?s1 a = heap s a"
  proof (cases "a = b")
    case True
    with Cons.prems show ?thesis by (simp add: arm_skip)
  next
    case False
    then show ?thesis by (rule arm_other)
  qed
  ultimately show ?case by simp
qed

lemma arm_fold_armed:
  assumes "distinct xs" "a \<in> set xs" "eligible (heap s a)" "updateInterval (heap s a) = Some m"
  shows "\<exists>h. nextHandle s \<le> h \<and> h < nextHandle (fold arm xs s)
             \<and> updateTimers (heap (fold arm xs s) a) = Some (tracked s a @ [h])
             \<and> timers (fold arm xs s) h
                 = Some \<lparr>period = timer_delay (m * 60 * 1000), action = IndividualUpdate a\<rparr>"
  using assms
proof (induction xs arbitrary: s)
  case Nil
  then show ?case by simp
next
  case (Cons b xs)
  let ?s1 = "arm b s"
  let ?s' = "fold arm xs ?s1"
  have le1: "nextHandle s \<le> nextHandle ?s1" by (rule arm_frame)
  have le2: "nextHandle ?s1 \<le> nextHandle ?s'" by (rule arm_fold_next)
  show ?case
  proof (cases "a = b")
    case True
    with Cons.prems have out: "a \<notin> set xs" by simp
    have e: "eligible (heap s b)" "updateInterval (heap s b) = Some m"
      using Cons.prems True by simp_all
    have n1: "nextHandle ?s1 = Suc (nextHandle s)" by (rule arm_arm(3) [OF e])
    have "heap ?s' a = heap ?s1 a" using out by (rule arm_fold_outside)
    then have u: "updateTimers (heap ?s' a) = Some (tracked s a @ [nextHandle s])"
      using arm_arm(1) [OF e, of a] True by simp
    have "timers ?s' (nextHandle s) = timers ?s1 (nextHandle s)"
      by (rule arm_fold_timers_old) (simp add: n1)
    then have t: "timers ?s' (nextHandle s)
                   = Some \<lparr>period = timer_delay (m * 60 * 1000), action = IndividualUpdate a\<rparr>"
      using arm_arm(2) [OF e, of "nextHandle s"] True by simp
    from n1 le2 have "nextHandle s < nextHandle ?s'" by simp
    with u t show ?thesis by (intro exI [of _ "nextHandle s"]) simp
  next
    case False
    with Cons.prems have a: "distinct xs" "a \<in> set xs" by simp_all
    have e1: "eligible (heap ?s1 a)" "updateInterval (heap ?s1 a) = Some m"
      using Cons.prems by (simp_all add: arm_frame)
    have same: "tracked ?s1 a = tracked s a"
      using False by (simp add: tracked_def arm_other)
    from Cons.IH [OF a e1] obtain h where h:
      "nextHandle ?s1 \<le> h" "h < nextHandle ?s'"
      "updateTimers (heap ?s' a) = Some (tracked ?s1 a @ [h])"
      "timers ?s' h = Some \<lparr>period = timer_delay (m * 60 * 1000), action = IndividualUpdate a\<rparr>"
      by blast
    from h le1 same show ?thesis by (intro exI [of _ h]) simp
  qed
qed

lemma arm_fold_new:
  assumes "distinct xs" "nextHandle s \<le> h" "h < nextHandle (fold arm xs s)"
  shows "\<exists>a \<in> set xs. eligible (heap s a)
            \<and> (\<exists>p. timers (fold arm xs s) h = Some \<lparr>period = p, action = IndividualUpdate a\<rparr>)
            \<and> updateTimers (heap (fold arm xs s) a) = Some (tracked s a @ [h])"
  using assms
proof (induction xs arbitrary: s)
  case Nil
  then show ?case by simp
next
  case (Cons b xs)
  let ?s1 = "arm b s"
  let ?s' = "fold arm xs ?s1"
  have le1: "nextHandle s \<le> nextHandle ?s1" by (rule arm_frame)
  show ?case
  proof (cases "h < nextHandle ?s1")
    case True
    have e: "eligible (heap s b)"
    proof (rule ccontr)
      assume "\<not> eligible (heap s b)"
      then have "?s1 = s" by (rule arm_skip)
      with True Cons.prems(2) show False by simp
    qed
    then obtain m where m: "updateInterval (heap s b) = Some m" by (auto simp: eligible_iff)
    from arm_arm(3) [OF e m] True Cons.prems(2) have hh: "h = nextHandle s" by simp
    have "timers ?s' h = timers ?s1 h" by (rule arm_fold_timers_old) (simp add: True)
    then have th: "timers ?s' h
                     = Some \<lparr>period = timer_delay (m * 60 * 1000), action = IndividualUpdate b\<rparr>"
      using arm_arm(2) [OF e m, of h] hh by simp
    have "heap ?s' b = heap ?s1 b" using Cons.prems(1) by (simp add: arm_fold_outside)
    then have "updateTimers (heap ?s' b) = Some (tracked s b @ [h])"
      using arm_arm(1) [OF e m, of b] hh by simp
    with e th show ?thesis by (intro bexI [of _ b]) auto
  next
    case False
    with Cons.prems have p: "distinct xs" "nextHandle ?s1 \<le> h" "h < nextHandle ?s'" by simp_all
    from Cons.IH [OF p] obtain a q where a: "a \<in> set xs" "eligible (heap ?s1 a)"
      "timers ?s' h = Some \<lparr>period = q, action = IndividualUpdate a\<rparr>"
      "updateTimers (heap ?s' a) = Some (tracked ?s1 a @ [h])"
      by blast
    from a(1) Cons.prems(1) have ne: "a \<noteq> b" by auto
    then have same: "tracked ?s1 a = tracked s a" by (simp add: tracked_def arm_other)
    from a(2) have "eligible (heap s a)" by (simp add: arm_frame)
    with a same show ?thesis by (intro bexI [of _ a]) auto
  qed
qed

lemma item_resume_frame:
  "fetched (trace (snd (individualTick_resume a out u))) = fetched (trace u)"
  "\<exists>c. heap (snd (individualTick_resume a out u)) x = (heap u x)\<lparr>nodeCount := c\<rparr>"
proof -
  have r: "\<exists>c. heap u x = (heap u x)\<lparr>nodeCount := c\<rparr>"
    by (rule exI [of _ "nodeCount (heap u x)"]) simp
  have w: "\<exists>c. heap (applyUpdateResults rs u) x = (heap u x)\<lparr>nodeCount := c\<rparr>" for rs
    by (cases "hits u rs x = []") (auto simp: apply_all_heap intro: r)
  show "fetched (trace (snd (individualTick_resume a out u))) = fetched (trace u)"
    by (cases out)
       (simp_all add: individualTick_resume_def try_catch_def Let_def fetched_append)
  show "\<exists>c. heap (snd (individualTick_resume a out u)) x = (heap u x)\<lparr>nodeCount := c\<rparr>"
    by (cases out)
       (simp_all add: individualTick_resume_def try_catch_def Let_def w r)
qed

lemma timer_tick_item:
  assumes "timers u h = Some t" "action t = IndividualUpdate a"
  shows "timer_tick h u = emit (BatchUpdateNodes [sub_id (heap u a)]) u"
  using assms by (simp add: timer_tick_def individualTick_begin_def)

lemma setup_completes:
  "fst (setupIndividualUpdateTimers s) = Normal
     \<longleftrightarrow> (\<forall>a \<in> set (subscriptions s). \<not> url_throws (heap s a))"
proof -
  let ?xs = "subscriptions s"
  let ?s1 = "clearIndividualUpdateTimers s"
  have s1: "?s1 = fold clearTimersOf ?xs s" by (simp add: clearIndividualUpdateTimers_def)
  have sub1: "subscriptions ?s1 = ?xs" by (simp add: s1 clear_fold_frame)
  have ut1: "url_throws (heap ?s1 x) = url_throws (heap s x)" for x
    by (simp add: s1 clear_fold_frame)
  have r: "setupIndividualUpdateTimers s = forEach armTimerOf ?xs ?s1"
    by (simp add: setupIndividualUpdateTimers_def Let_def sub1)
  show ?thesis
  proof (cases "\<forall>a \<in> set ?xs. \<not> url_throws (heap s a)")
    case True
    then have "\<forall>a \<in> set ?xs. \<not> url_throws (heap ?s1 a)" by (simp add: ut1)
    then have "forEach armTimerOf ?xs ?s1 = (Normal, fold arm ?xs ?s1)" by (rule forEach_arm)
    with True show ?thesis by (simp add: r)
  next
    case False
    then have "\<exists>a \<in> set ?xs. url_throws (heap ?s1 a)" by (simp add: ut1)
    then have "fst (forEach armTimerOf ?xs ?s1) = Abrupt" by (rule forEach_abrupt)
    with False show ?thesis by (simp add: r)
  qed
qed


lemma demo_eligible: "eligible (heap demo_state 0)" "\<not> eligible (heap demo_state 2)"
  "updateInterval (heap demo_state 0) = Some 5" "distinct (subscriptions demo_state)"
  "0 \<in> set (subscriptions demo_state)" "2 \<in> set (subscriptions demo_state)"
  "\<forall>a \<in> set (subscriptions demo_state).
      \<not> (enabled (heap demo_state a) \<and> url (heap demo_state a) = None)"
  "\<forall>h. nextHandle demo_state \<le> h \<longrightarrow> timers demo_state h = None"
  "\<forall>h t a. timers demo_state h = Some t \<and> action t = IndividualUpdate a
      \<longrightarrow> a \<in> set (subscriptions demo_state) \<and> h \<in> set (tracked demo_state a)"
  by (simp_all add: demo_state_def demo_sub_def eligible_def has_http_def is_http_def)



end
